theory Spec2Isabelle
  imports Main "HOL-Library.Sublist" "HOL-Library.AList"
begin

section \<open>Python values\<close>

text \<open>
  A Python \<open>str\<close> is a sequence of Unicode code points, and \<open>len\<close> counts code
  points, so a string is a list of naturals. \<open>ascii\<close> writes an ASCII literal of the
  source; the Korean literals of the source are written as their code points.
  The test \<open>a in b\<close> on strings is \<open>sublist a b\<close>.
\<close>

type_synonym pystr = "nat list"

definition ascii :: "string \<Rightarrow> pystr" where
  "ascii s = map of_char s"

text \<open>
  The values stored in \<open>division_results\<close>: a string, a \<open>dict\<close> with string keys
  (in insertion order), or any other object.
\<close>

datatype pyval = PStr pystr | PDict "(pystr \<times> pyval) list" | PObj nat

text \<open>
  Built-ins of Python and of its \<open>re\<close> module that the program calls and that are no
  part of the repository. Every function below takes them as the parameter \<open>P\<close>; the
  general theorems hold for all of them, and the evaluations on concrete inputs use
  the ASCII instance \<open>ascii_py\<close> defined further down:
  \<open>str_lower\<close> is \<open>str.lower\<close>, \<open>str_title\<close> is \<open>str.title\<close>,
  \<open>re_ieq p c\<close> says that the pattern character \<open>p\<close> matches the character \<open>c\<close>
  under \<open>re.IGNORECASE\<close>, \<open>py_str\<close> is \<open>str()\<close> on a value, and \<open>hash_str q\<close>
  is the decimal text of \<open>hash(q)\<close>.
\<close>

record py =
  str_lower :: "pystr \<Rightarrow> pystr"
  str_title :: "pystr \<Rightarrow> pystr"
  re_ieq :: "nat \<Rightarrow> nat \<Rightarrow> bool"
  py_str :: "pyval \<Rightarrow> pystr"
  hash_str :: "pystr \<Rightarrow> pystr"

section \<open>state.py: the enumerations\<close>

datatype division =
  STRATEGIC_PLANNING | MARKET_INTELLIGENCE | CHANNEL_MANAGEMENT | ANALYTICS | OPERATIONS

fun division_value :: "division \<Rightarrow> pystr" where
  "division_value STRATEGIC_PLANNING = ascii ''strategic_planning''"
| "division_value MARKET_INTELLIGENCE = ascii ''market_intelligence''"
| "division_value CHANNEL_MANAGEMENT = ascii ''channel_management''"
| "division_value ANALYTICS = ascii ''analytics''"
| "division_value OPERATIONS = ascii ''operations''"

datatype task_type =
  PROMOTION_PLANNING | TIMELINE_MANAGEMENT | BUDGET_ALLOCATION
| NEWS_SCOUTING | COMPETITOR_ANALYSIS | INGREDIENT_TRENDS | SEASONAL_ANALYSIS
| CHANNEL_STATUS | PRICE_SYNC | INVENTORY_CHECK | CROSS_CHANNEL
| SENTIMENT_ANALYSIS | PROMOTION_REVIEW | BUNDLE_ANALYSIS | MARGIN_CALCULATION
| STOCKOUT_PREDICTION | INFLUENCER_ROI | ATTRIBUTION
| INVENTORY_MONITORING | PRICE_MONITORING | CHECKLIST_VALIDATION
| GENERAL_QUERY | MULTI_DIVISION

fun task_value :: "task_type \<Rightarrow> pystr" where
  "task_value PROMOTION_PLANNING = ascii ''promotion_planning''"
| "task_value TIMELINE_MANAGEMENT = ascii ''timeline_management''"
| "task_value BUDGET_ALLOCATION = ascii ''budget_allocation''"
| "task_value NEWS_SCOUTING = ascii ''news_scouting''"
| "task_value COMPETITOR_ANALYSIS = ascii ''competitor_analysis''"
| "task_value INGREDIENT_TRENDS = ascii ''ingredient_trends''"
| "task_value SEASONAL_ANALYSIS = ascii ''seasonal_analysis''"
| "task_value CHANNEL_STATUS = ascii ''channel_status''"
| "task_value PRICE_SYNC = ascii ''price_sync''"
| "task_value INVENTORY_CHECK = ascii ''inventory_check''"
| "task_value CROSS_CHANNEL = ascii ''cross_channel''"
| "task_value SENTIMENT_ANALYSIS = ascii ''sentiment_analysis''"
| "task_value PROMOTION_REVIEW = ascii ''promotion_review''"
| "task_value BUNDLE_ANALYSIS = ascii ''bundle_analysis''"
| "task_value MARGIN_CALCULATION = ascii ''margin_calculation''"
| "task_value STOCKOUT_PREDICTION = ascii ''stockout_prediction''"
| "task_value INFLUENCER_ROI = ascii ''influencer_roi''"
| "task_value ATTRIBUTION = ascii ''attribution''"
| "task_value INVENTORY_MONITORING = ascii ''inventory_monitoring''"
| "task_value PRICE_MONITORING = ascii ''price_monitoring''"
| "task_value CHECKLIST_VALIDATION = ascii ''checklist_validation''"
| "task_value GENERAL_QUERY = ascii ''general_query''"
| "task_value MULTI_DIVISION = ascii ''multi_division''"

section \<open>routing.py: the tables\<close>

text \<open>\<open>TASK_KEYWORDS\<close>: a \<open>dict\<close>, iterated in the order of its declaration.\<close>

definition TASK_KEYWORDS :: "(task_type \<times> pystr list) list" where
  "TASK_KEYWORDS = [
  (PROMOTION_PLANNING, [ascii ''plan'', ascii ''planning'', ascii ''calendar'',
     ascii ''schedule'', ascii ''campaign'', ascii ''q1'', ascii ''q2'', ascii ''q3'',
     ascii ''q4'', ascii ''quarterly'', ascii ''monthly'', ascii ''weekly'', ascii ''annual'',
     [54532, 47196, 47784, 49496], [44228, 54925], [52896, 54168, 51064]]),
  (TIMELINE_MANAGEMENT, [ascii ''timeline'', ascii ''deadline'', ascii ''milestone'',
     ascii ''due'', ascii ''when'', ascii ''reminder'', [51068, 51221], [47560, 44048]]),
  (BUDGET_ALLOCATION, [ascii ''budget'', ascii ''cost'', ascii ''spend'', ascii ''allocate'',
     ascii ''roi'', [50696, 49328], [48708, 50857], [48176, 48516]]),
  (NEWS_SCOUTING, [ascii ''news'', ascii ''trend'', ascii ''industry'',
     [45684, 49828], [53944, 47116, 46300], [50629, 44228]]),
  (COMPETITOR_ANALYSIS, [ascii ''competitor'', ascii ''competition'', ascii ''innisfree'',
     ascii ''laneige'', ascii ''etude'', [44221, 51137, 49324], [44221, 51137]]),
  (INGREDIENT_TRENDS, [ascii ''ingredient'', ascii ''centella'', ascii ''retinol'',
     ascii ''niacinamide'', ascii ''vitamin'', [49457, 48516], [47112, 54000, 45440]]),
  (SEASONAL_ANALYSIS, [ascii ''seasonal'', ascii ''season'', ascii ''summer'',
     ascii ''winter'', ascii ''holiday'', [44228, 51208], [50668, 47492], [44200, 50872]]),
  (CHANNEL_STATUS, [ascii ''oliveyoung'', ascii ''coupang'', ascii ''naver'', ascii ''kakao'',
     ascii ''channel'', [50732, 47532, 48652, 50689], [53216, 54049], [45348, 51060, 48260]]),
  (PRICE_SYNC, [ascii ''price sync'', ascii ''price consistency'',
     [44032, 44201, 32, 46041, 44592, 54868], [44032, 44201, 32, 51068, 52824]]),
  (SENTIMENT_ANALYSIS, [ascii ''review'', ascii ''sentiment'', ascii ''feedback'',
     ascii ''customer opinion'', [47532, 48624], [54217, 51216],
     [44256, 44061, 32, 51032, 44204]]),
  (PROMOTION_REVIEW, [ascii ''performance'', ascii ''analyze promotion'', ascii ''how did'',
     [44208, 44284], [49457, 44284], [48516, 49437]]),
  (BUNDLE_ANALYSIS, [ascii ''bundle'', ascii ''cross-sell'', ascii ''upsell'',
     [49464, 53944], [48264, 46308], [44368, 52264, 54032, 47588]]),
  (MARGIN_CALCULATION, [ascii ''margin'', ascii ''profit'', ascii ''discount level'',
     [47560, 51652], [49688, 51061], [54624, 51064, 50984]]),
  (STOCKOUT_PREDICTION, [ascii ''stockout'', ascii ''stock out'', ascii ''reorder'',
     ascii ''inventory forecast'', [51116, 44256, 32, 48512, 51313], [48156, 51452]]),
  (INFLUENCER_ROI, [ascii ''influencer'', ascii ''kol'', ascii ''creator'',
     [51064, 54540, 47336, 50616, 49436], [53356, 47532, 50640, 51060, 53552]]),
  (ATTRIBUTION, [ascii ''attribution'', ascii ''channel contribution'',
     [44592, 50668, 46020], [52292, 45328, 32, 44592, 50668]]),
  (INVENTORY_MONITORING, [ascii ''inventory'', ascii ''stock level'',
     [51116, 44256], [51116, 44256, 32, 54788, 54889]]),
  (PRICE_MONITORING, [ascii ''price monitor'', ascii ''map violation'', ascii ''reseller'',
     [44032, 44201, 32, 47784, 45768, 53552, 47553], [47532, 49472, 47084]]),
  (CHECKLIST_VALIDATION, [ascii ''checklist'', ascii ''validation'', ascii ''pre-launch'',
     [52404, 53356, 47532, 49828, 53944], [44160, 51613]])]"

text \<open>\<open>TASK_TO_DIVISION\<close>: the \<open>dict\<close> from task types to divisions.\<close>

fun TASK_TO_DIVISION :: "task_type \<Rightarrow> division option" where
  "TASK_TO_DIVISION PROMOTION_PLANNING = Some STRATEGIC_PLANNING"
| "TASK_TO_DIVISION TIMELINE_MANAGEMENT = Some STRATEGIC_PLANNING"
| "TASK_TO_DIVISION BUDGET_ALLOCATION = Some STRATEGIC_PLANNING"
| "TASK_TO_DIVISION NEWS_SCOUTING = Some MARKET_INTELLIGENCE"
| "TASK_TO_DIVISION COMPETITOR_ANALYSIS = Some MARKET_INTELLIGENCE"
| "TASK_TO_DIVISION INGREDIENT_TRENDS = Some MARKET_INTELLIGENCE"
| "TASK_TO_DIVISION SEASONAL_ANALYSIS = Some MARKET_INTELLIGENCE"
| "TASK_TO_DIVISION CHANNEL_STATUS = Some CHANNEL_MANAGEMENT"
| "TASK_TO_DIVISION PRICE_SYNC = Some CHANNEL_MANAGEMENT"
| "TASK_TO_DIVISION INVENTORY_CHECK = Some CHANNEL_MANAGEMENT"
| "TASK_TO_DIVISION CROSS_CHANNEL = Some CHANNEL_MANAGEMENT"
| "TASK_TO_DIVISION SENTIMENT_ANALYSIS = Some ANALYTICS"
| "TASK_TO_DIVISION PROMOTION_REVIEW = Some ANALYTICS"
| "TASK_TO_DIVISION BUNDLE_ANALYSIS = Some ANALYTICS"
| "TASK_TO_DIVISION MARGIN_CALCULATION = Some ANALYTICS"
| "TASK_TO_DIVISION STOCKOUT_PREDICTION = Some ANALYTICS"
| "TASK_TO_DIVISION INFLUENCER_ROI = Some ANALYTICS"
| "TASK_TO_DIVISION ATTRIBUTION = Some ANALYTICS"
| "TASK_TO_DIVISION INVENTORY_MONITORING = Some OPERATIONS"
| "TASK_TO_DIVISION PRICE_MONITORING = Some OPERATIONS"
| "TASK_TO_DIVISION CHECKLIST_VALIDATION = Some OPERATIONS"
| "TASK_TO_DIVISION GENERAL_QUERY = None"
| "TASK_TO_DIVISION MULTI_DIVISION = None"

section \<open>routing.py: classify_task\<close>

text \<open>\<open>sum(1 for kw in keywords if kw.lower() in query_lower)\<close>\<close>

definition keyword_score :: "py \<Rightarrow> pystr list \<Rightarrow> pystr \<Rightarrow> nat" where
  "keyword_score P keywords query_lower =
     length (filter (\<lambda>kw. sublist (str_lower P kw) query_lower) keywords)"

text \<open>
  The loop over \<open>TASK_KEYWORDS.items()\<close>. The \<open>dict\<close> \<open>scores\<close> is an association
  list in insertion order; \<open>scores[task_type] = score\<close> is \<open>AList.update\<close>, which
  overwrites the entry of a key that is present and appends a new key at the end.
\<close>

fun collect_scores ::
  "py \<Rightarrow> pystr \<Rightarrow> (task_type \<times> pystr list) list \<Rightarrow> (task_type \<times> nat) list
   \<Rightarrow> (task_type \<times> nat) list" where
  "collect_scores P query_lower [] scores = scores"
| "collect_scores P query_lower ((task, keywords) # rest) scores =
     (let score = keyword_score P keywords query_lower
      in collect_scores P query_lower rest
           (if score > 0 then AList.update task score scores else scores))"

text \<open>
  \<open>max(iterable, key=f)\<close> of Python keeps the first of several maximal elements: a
  later element replaces the best one only when its key is strictly greater.
\<close>

fun py_max_key :: "('a \<Rightarrow> nat) \<Rightarrow> 'a \<Rightarrow> 'a list \<Rightarrow> 'a" where
  "py_max_key f best [] = best"
| "py_max_key f best (x # xs) = py_max_key f (if f best < f x then x else best) xs"

text \<open>\<open>scores[x]\<close>, read only at keys of \<open>scores\<close>.\<close>

definition score_of :: "(task_type \<times> nat) list \<Rightarrow> task_type \<Rightarrow> nat" where
  "score_of scores x = (case map_of scores x of Some s \<Rightarrow> s | None \<Rightarrow> 0)"

definition classify_task :: "py \<Rightarrow> pystr \<Rightarrow> task_type" where
  "classify_task P query =
     (let query_lower = str_lower P query;
          scores = collect_scores P query_lower TASK_KEYWORDS []
      in case map fst scores of
           [] \<Rightarrow> GENERAL_QUERY
         | k # ks \<Rightarrow> py_max_key (score_of scores) k ks)"

text \<open>
  The classifier as the specification words it: a category's score is the number of its
  keyword entries that occur in the lower-cased query; the first declared category among
  those with the maximal score wins, and when no score is positive the result is the
  default category.
\<close>

definition scored_table :: "py \<Rightarrow> pystr \<Rightarrow> (task_type \<times> pystr list) list \<Rightarrow> (task_type \<times> nat) list" where
  "scored_table P query tbl = map (\<lambda>(t, keywords). (t, keyword_score P keywords (str_lower P query))) tbl"

definition classify_spec :: "py \<Rightarrow> pystr \<Rightarrow> task_type" where
  "classify_spec P query =
     (let scored = scored_table P query TASK_KEYWORDS;
          best = Max (set (0 # map snd scored))
      in if best = 0 then GENERAL_QUERY
         else case find (\<lambda>(t, s). s = best) scored of
                Some (t, s) \<Rightarrow> t
              | None \<Rightarrow> GENERAL_QUERY)"

section \<open>routing.py: determine_divisions\<close>

text \<open>
  The regular expressions of \<open>MULTI_DIVISION_PATTERNS\<close> use literals, \<open>.*\<close>,
  concatenation and \<open>|\<close> only. \<open>re_match P r s\<close> lists the rests of \<open>s\<close> that remain
  after each way of matching \<open>r\<close> at the start of \<open>s\<close>; a literal character matches
  under \<open>re.IGNORECASE\<close> (\<open>re_ieq\<close>), and \<open>.\<close> matches every character but the
  newline. \<open>re_search\<close> is \<open>re.search\<close>: a match at some position.
\<close>

datatype regex = Lit pystr | AnyStar | Seq regex regex | Alt regex regex

fun lit_match :: "py \<Rightarrow> pystr \<Rightarrow> pystr \<Rightarrow> pystr option" where
  "lit_match P [] s = Some s"
| "lit_match P (p # ps) [] = None"
| "lit_match P (p # ps) (c # cs) = (if re_ieq P p c then lit_match P ps cs else None)"

fun any_star :: "pystr \<Rightarrow> pystr list" where
  "any_star [] = [[]]"
| "any_star (c # cs) = (c # cs) # (if c = 10 then [] else any_star cs)"

fun re_match :: "py \<Rightarrow> regex \<Rightarrow> pystr \<Rightarrow> pystr list" where
  "re_match P (Lit l) s = (case lit_match P l s of None \<Rightarrow> [] | Some rest \<Rightarrow> [rest])"
| "re_match P AnyStar s = any_star s"
| "re_match P (Seq r1 r2) s = concat (map (re_match P r2) (re_match P r1 s))"
| "re_match P (Alt r1 r2) s = re_match P r1 s @ re_match P r2 s"

fun re_search :: "py \<Rightarrow> regex \<Rightarrow> pystr \<Rightarrow> bool" where
  "re_search P r [] = (re_match P r [] \<noteq> [])"
| "re_search P r (c # cs) = (re_match P r (c # cs) \<noteq> [] \<or> re_search P r cs)"

text \<open>The regular expression \<open>a.*b\<close> for two literals.\<close>

definition lit_gap_lit :: "pystr \<Rightarrow> pystr \<Rightarrow> regex" where
  "lit_gap_lit a b = Seq (Lit a) (Seq AnyStar (Lit b))"

record pattern_config =
  pattern :: regex
  divisions :: "division list"
  description :: string

definition MULTI_DIVISION_PATTERNS :: "pattern_config list" where
  "MULTI_DIVISION_PATTERNS = [
     \<lparr> pattern =
         Alt (lit_gap_lit (ascii ''plan'') (ascii ''promotion''))
        (Alt (lit_gap_lit (ascii ''promotion'') (ascii ''plan''))
        (Alt (lit_gap_lit [52896, 54168, 51064] [44228, 54925])
             (lit_gap_lit [44228, 54925] [52896, 54168, 51064]))),
       divisions = [STRATEGIC_PLANNING, MARKET_INTELLIGENCE, CHANNEL_MANAGEMENT, ANALYTICS],
       description = ''Full promotion planning workflow'' \<rparr>,
     \<lparr> pattern =
         Alt (lit_gap_lit (ascii ''launch'') (ascii ''check''))
        (Alt (lit_gap_lit (ascii ''pre'') (ascii ''launch''))
        (Alt (lit_gap_lit [47088, 52845] [52404, 53356])
             (lit_gap_lit [49324, 51204] [44160, 53664]))),
       divisions = [OPERATIONS, CHANNEL_MANAGEMENT],
       description = ''Pre-launch validation'' \<rparr>,
     \<lparr> pattern =
         Alt (lit_gap_lit (ascii ''analyze'') (ascii ''channel''))
        (Alt (lit_gap_lit (ascii ''channel'') (ascii ''performance''))
        (Alt (lit_gap_lit [52292, 45328] [48516, 49437])
             (lit_gap_lit [49457, 44284] [48516, 49437]))),
       divisions = [CHANNEL_MANAGEMENT, ANALYTICS],
       description = ''Channel performance analysis'' \<rparr>]"

text \<open>The loop over \<open>MULTI_DIVISION_PATTERNS\<close>, which returns at the first match.\<close>

fun first_pattern :: "py \<Rightarrow> pystr \<Rightarrow> pattern_config list \<Rightarrow> division list option" where
  "first_pattern P query_lower [] = None"
| "first_pattern P query_lower (pattern_config # rest) =
     (if re_search P (pattern pattern_config) query_lower
      then Some (divisions pattern_config)
      else first_pattern P query_lower rest)"

definition determine_divisions :: "py \<Rightarrow> pystr \<Rightarrow> task_type \<Rightarrow> division list" where
  "determine_divisions P query task =
     (let query_lower = str_lower P query
      in case first_pattern P query_lower MULTI_DIVISION_PATTERNS of
           Some ds \<Rightarrow> ds
         | None \<Rightarrow>
             (case TASK_TO_DIVISION task of
                Some d \<Rightarrow> [d]
              | None \<Rightarrow> []))"

section \<open>routing.py: determine_model_tier\<close>

text \<open>The three strings that \<open>determine_model_tier\<close> returns.\<close>

datatype tier = Tier1_free | Tier2_cheap | Tier3_full

fun tier_value :: "tier \<Rightarrow> pystr" where
  "tier_value Tier1_free = ascii ''tier1_free''"
| "tier_value Tier2_cheap = ascii ''tier2_cheap''"
| "tier_value Tier3_full = ascii ''tier3_full''"

definition determine_model_tier :: "task_type \<Rightarrow> pystr \<Rightarrow> tier" where
  "determine_model_tier task query =
     (if task \<in> {INVENTORY_MONITORING, CHANNEL_STATUS} then Tier1_free
      else if task \<in> {PRICE_MONITORING, CHECKLIST_VALIDATION} then Tier2_cheap
      else if length query < 50 \<and> task \<notin> {PROMOTION_PLANNING, MULTI_DIVISION} then Tier2_cheap
      else Tier3_full)"

text \<open>
  The tier policy as the specification words it: an ordered list of rules, each a
  condition on the category and the query with the tier it yields; the first rule whose
  condition holds decides, and the full model is the default.
\<close>

definition tier_policy :: "((task_type \<Rightarrow> pystr \<Rightarrow> bool) \<times> tier) list" where
  "tier_policy = [
     (\<lambda>task query. task = INVENTORY_MONITORING \<or> task = CHANNEL_STATUS, Tier1_free),
     (\<lambda>task query. task = PRICE_MONITORING \<or> task = CHECKLIST_VALIDATION, Tier2_cheap),
     (\<lambda>task query. length query < 50 \<and> task \<noteq> PROMOTION_PLANNING \<and> task \<noteq> MULTI_DIVISION,
        Tier2_cheap)]"

definition select_tier :: "task_type \<Rightarrow> pystr \<Rightarrow> tier" where
  "select_tier task query =
     (case find (\<lambda>(applies, t). applies task query) tier_policy of
        Some (applies, t) \<Rightarrow> t
      | None \<Rightarrow> Tier3_full)"

section \<open>state.py: the state of a request\<close>

text \<open>
  A message of the conversation. LangGraph gives every message of the \<open>messages\<close>
  channel an identifier; a message that a node has just constructed has none yet.
\<close>

datatype role = Human | Assistant

record message =
  msg_id :: "nat option"
  msg_role :: role
  msg_content :: pystr

definition AIMessage :: "pystr \<Rightarrow> message" where
  "AIMessage text = \<lparr> msg_id = None, msg_role = Assistant, msg_content = text \<rparr>"

definition HumanMessage :: "pystr \<Rightarrow> message" where
  "HumanMessage text = \<lparr> msg_id = None, msg_role = Human, msg_content = text \<rparr>"

text \<open>
  The message \<open>HumanMessage(content=query)\<close> of \<open>process_request\<close>, with the
  identifier that the \<open>messages\<close> channel gives it when the input is written.
\<close>

definition input_message :: "pystr \<Rightarrow> message" where
  "input_message text = (HumanMessage text)\<lparr> msg_id := Some 1 \<rparr>"

text \<open>
  The key \<open>error\<close> of the state: absent, present with the value \<open>None\<close>, or present
  with a string. \<open>state.get("error")\<close> is \<open>None\<close> in the first two cases.
\<close>

datatype error_field = No_key | Py_None | Err pystr

text \<open>\<open>if error:\<close> holds for a string that is not empty.\<close>

fun truthy :: "error_field \<Rightarrow> bool" where
  "truthy (Err s) = (s \<noteq> [])"
| "truthy _ = False"

text \<open>
  \<open>PromotorStateDict\<close>. A list, a \<open>dict\<close> or \<open>brand_id\<close> that is absent is
  modelled by what the code's \<open>state.get(key, default)\<close> reads for it: the empty list,
  the empty \<open>dict\<close>, and \<open>None\<close> for \<open>brand_id\<close>. \<open>division_results\<close> is a \<open>dict\<close>
  in insertion order.
\<close>

record state =
  messages :: "message list"
  current_division :: "pystr option"
  current_agent :: "pystr option"
  user_id :: pystr
  brand_id :: "pystr option"
  active_channels :: "pystr list"
  task_type :: pystr
  division_results :: "(pystr \<times> pyval) list"
  dashboard_metrics :: pyval
  next_divisions :: "pystr list"
  completed_divisions :: "pystr list"
  use_mini_model :: bool
  cache_key :: "pystr option"
  error :: error_field
  retry_count :: int

text \<open>
  \<open>create_initial_state\<close>; the timestamp of \<open>dashboard_metrics\<close> is the parameter
  \<open>now\<close>, and the numbers and booleans of \<open>dashboard_metrics\<close> are opaque objects.
\<close>

definition create_initial_state :: "pystr \<Rightarrow> pystr \<Rightarrow> pystr list option \<Rightarrow> pystr \<Rightarrow> state" where
  "create_initial_state uid bid channels now =
     \<lparr> messages = [],
       current_division = None,
       current_agent = None,
       user_id = uid,
       brand_id = Some bid,
       active_channels =
         (case channels of
            None \<Rightarrow> [ascii ''oliveyoung'', ascii ''coupang'', ascii ''naver'', ascii ''kakao'']
          | Some [] \<Rightarrow> [ascii ''oliveyoung'', ascii ''coupang'', ascii ''naver'', ascii ''kakao'']
          | Some cs \<Rightarrow> cs),
       task_type = task_value GENERAL_QUERY,
       division_results = [],
       dashboard_metrics = PDict [
         (ascii ''total_sales'', PObj 0),
         (ascii ''active_promotions'', PObj 0),
         (ascii ''pending_alerts'', PObj 0),
         (ascii ''channel_status'', PDict [
            (ascii ''oliveyoung'', PObj 1), (ascii ''coupang'', PObj 1),
            (ascii ''naver'', PObj 1), (ascii ''kakao'', PObj 0)]),
         (ascii ''last_updated'', PStr now)],
       next_divisions = [],
       completed_divisions = [],
       use_mini_model = False,
       cache_key = None,
       error = Py_None,
       retry_count = 0 \<rparr>"

section \<open>main_graph.py: the nodes\<close>

text \<open>\<open>str(v)\<close> and the formatting of \<open>v\<close> in an f-string: a string is itself.\<close>

fun str_of :: "py \<Rightarrow> pyval \<Rightarrow> pystr" where
  "str_of P (PStr s) = s"
| "str_of P v = py_str P v"

text \<open>\<open>sep.join(parts)\<close>\<close>

fun py_join :: "pystr \<Rightarrow> pystr list \<Rightarrow> pystr" where
  "py_join sep [] = []"
| "py_join sep [p] = p"
| "py_join sep (p # q # ps) = p @ sep @ py_join sep (q # ps)"

text \<open>\<open>name.replace('_', ' ').title()\<close>\<close>

definition display_name :: "py \<Rightarrow> pystr \<Rightarrow> pystr" where
  "display_name P name = str_title P (map (\<lambda>c. if c = 95 then 32 else c) name)"

text \<open>
  The locals of \<open>chief_coordinator\<close> once the query is known, and the state it returns
  for them.
\<close>

definition coordinator_result ::
  "py \<Rightarrow> state \<Rightarrow> pystr \<Rightarrow> task_type \<Rightarrow> division list \<Rightarrow> tier \<Rightarrow> state" where
  "coordinator_result P st query task divs model_tier =
     (let use_mini = (model_tier = Tier2_cheap);
          brand = (case brand_id st of None \<Rightarrow> ascii ''default'' | Some b \<Rightarrow> b);
          key = brand @ ascii '':'' @ task_value task @ ascii '':'' @ hash_str P query
      in st\<lparr> task_type := task_value task,
             next_divisions := map division_value divs,
             use_mini_model := use_mini,
             cache_key := Some key,
             current_division := None,
             current_agent := Some (ascii ''chief_coordinator'') \<rparr>)"

definition chief_coordinator :: "py \<Rightarrow> state \<Rightarrow> state" where
  "chief_coordinator P st =
     (if messages st = [] then st\<lparr> error := Err (ascii ''No messages to process'') \<rparr>
      else
        let last_message = last (messages st);
            query = msg_content last_message;
            task = classify_task P query;
            divs = determine_divisions P query task;
            model_tier = determine_model_tier task query
        in coordinator_result P st query task divs model_tier)"

text \<open>The summary that \<open>response_aggregator\<close> reads from one result.\<close>

fun summary_of :: "py \<Rightarrow> pyval \<Rightarrow> pystr" where
  "summary_of P (PDict d) =
     (case map_of d (ascii ''summary'') of
        Some v \<Rightarrow> str_of P v
      | None \<Rightarrow> str_of P (PDict d))"
| "summary_of P v = str_of P v"

definition section_of :: "py \<Rightarrow> pystr \<times> pyval \<Rightarrow> pystr" where
  "section_of P item =
     ascii ''**'' @ display_name P (fst item) @ ascii ''**: '' @ summary_of P (snd item)"

definition response_parts :: "py \<Rightarrow> state \<Rightarrow> pystr list" where
  "response_parts P st =
     (if division_results st = []
      then [ascii ''I've processed your request but no specific division results were generated.'']
      else map (section_of P) (division_results st))"

definition aggregated_response :: "py \<Rightarrow> state \<Rightarrow> pystr" where
  "aggregated_response P st = py_join [10, 10] (response_parts P st)"

definition response_aggregator :: "py \<Rightarrow> state \<Rightarrow> state" where
  "response_aggregator P st =
     st\<lparr> messages := [AIMessage (aggregated_response P st)],
         current_agent := Some (ascii ''response_aggregator'') \<rparr>"

definition error_message :: "state \<Rightarrow> pystr" where
  "error_message st =
     ascii ''An error occurred while processing your request: '' @
       (case error st of
          No_key \<Rightarrow> ascii ''Unknown error occurred''
        | Py_None \<Rightarrow> ascii ''None''
        | Err e \<Rightarrow> e)"

definition error_handler :: "state \<Rightarrow> state" where
  "error_handler st =
     st\<lparr> messages := [AIMessage (error_message st)],
         current_agent := Some (ascii ''error_handler'') \<rparr>"

definition division_result :: "py \<Rightarrow> pystr \<Rightarrow> pyval" where
  "division_result P division_name =
     PDict [(ascii ''division'', PStr division_name),
            (ascii ''status'', PStr (ascii ''processed'')),
            (ascii ''summary'',
               PStr (display_name P division_name @ ascii '' division has processed the request.''))]"

definition division_supervisor :: "py \<Rightarrow> division \<Rightarrow> state \<Rightarrow> state" where
  "division_supervisor P d st =
     (let division_name = division_value d;
          result = division_result P division_name;
          updated_results = AList.update division_name result (division_results st);
          completed = (if division_name \<notin> set (completed_divisions st)
                       then completed_divisions st @ [division_name]
                       else completed_divisions st)
      in st\<lparr> current_division := Some division_name,
             division_results := updated_results,
             completed_divisions := completed \<rparr>)"

section \<open>main_graph.py and routing.py: the routing functions\<close>

text \<open>
  The strings that the routing functions return: \<open>f"{d}_supervisor"\<close> for a division
  name \<open>d\<close>, \<open>"response_aggregator"\<close> and \<open>"error_handler"\<close>. No string of the first
  form equals one of the other two.
\<close>

datatype target = To_supervisor pystr | To_response_aggregator | To_error_handler

definition route_from_coordinator :: "state \<Rightarrow> target" where
  "route_from_coordinator st =
     (if truthy (error st) then To_error_handler
      else case next_divisions st of
             [] \<Rightarrow> To_response_aggregator
           | first_division # _ \<Rightarrow> To_supervisor first_division)"

definition pending_divisions :: "state \<Rightarrow> pystr list" where
  "pending_divisions st =
     filter (\<lambda>d. d \<notin> set (completed_divisions st)) (next_divisions st)"

definition route_from_division :: "state \<Rightarrow> target" where
  "route_from_division st =
     (case pending_divisions st of
        [] \<Rightarrow> To_response_aggregator
      | p # _ \<Rightarrow> To_supervisor p)"



section \<open>The graph of create_main_graph\<close>

text \<open>
  The reducer \<open>add_messages\<close> of the \<open>messages\<close> channel (LangGraph): every message
  without an identifier gets a fresh one; then each message of the update replaces the
  message of the channel that has its identifier, or is appended when there is none.
  A fresh identifier is one that no message at hand carries.
\<close>

definition ids_of :: "message list \<Rightarrow> nat list" where
  "ids_of ms = List.map_filter msg_id ms"

definition fresh_id :: "nat list \<Rightarrow> nat" where
  "fresh_id used = Suc (fold max used 0)"

fun assign_ids :: "nat list \<Rightarrow> message list \<Rightarrow> message list" where
  "assign_ids used [] = []"
| "assign_ids used (m # ms) =
     (case msg_id m of
        Some i \<Rightarrow> m # assign_ids used ms
      | None \<Rightarrow> m\<lparr> msg_id := Some (fresh_id used) \<rparr> # assign_ids (fresh_id used # used) ms)"

fun last_index :: "nat option \<Rightarrow> message list \<Rightarrow> nat option" where
  "last_index i [] = None"
| "last_index i (m # ms) =
     (case last_index i ms of
        Some k \<Rightarrow> Some (Suc k)
      | None \<Rightarrow> if msg_id m = i then Some 0 else None)"

definition merge_message :: "message list \<Rightarrow> message \<Rightarrow> message list" where
  "merge_message merged m =
     (case last_index (msg_id m) merged of
        Some k \<Rightarrow> merged[k := m]
      | None \<Rightarrow> merged @ [m])"

definition add_messages :: "message list \<Rightarrow> message list \<Rightarrow> message list" where
  "add_messages left right =
     (let left' = assign_ids (ids_of left @ ids_of right) left;
          right' = assign_ids (ids_of left' @ ids_of right) right
      in foldl merge_message left' right')"

datatype node = Chief_coordinator | Supervisor division | Response_aggregator | Error_handler

fun node_function :: "py \<Rightarrow> node \<Rightarrow> state \<Rightarrow> state" where
  "node_function P Chief_coordinator st = chief_coordinator P st"
| "node_function P (Supervisor d) st = division_supervisor P d st"
| "node_function P Response_aggregator st = response_aggregator P st"
| "node_function P Error_handler st = error_handler st"

text \<open>
  One step of the graph: the node runs on the state, and what it returns is written to
  the channels; \<open>messages\<close> goes through its reducer, every other key is overwritten.
\<close>

definition run_node :: "py \<Rightarrow> node \<Rightarrow> state \<Rightarrow> state" where
  "run_node P n st =
     (let update = node_function P n st
      in update\<lparr> messages := add_messages (messages st) (messages update) \<rparr>)"

text \<open>
  The conditional edges. Each maps the string its routing function returns to a node;
  a string that is no key of the mapping is an error of the graph. The mapping of the
  division nodes has no key \<open>"error_handler"\<close>.
\<close>

definition all_divisions :: "division list" where
  "all_divisions =
     [STRATEGIC_PLANNING, MARKET_INTELLIGENCE, CHANNEL_MANAGEMENT, ANALYTICS, OPERATIONS]"

definition supervisor_named :: "pystr \<Rightarrow> node option" where
  "supervisor_named name =
     map_option Supervisor (find (\<lambda>d. division_value d = name) all_divisions)"

fun coordinator_edges :: "target \<Rightarrow> node option" where
  "coordinator_edges (To_supervisor name) = supervisor_named name"
| "coordinator_edges To_response_aggregator = Some Response_aggregator"
| "coordinator_edges To_error_handler = Some Error_handler"

fun division_edges :: "target \<Rightarrow> node option" where
  "division_edges (To_supervisor name) = supervisor_named name"
| "division_edges To_response_aggregator = Some Response_aggregator"
| "division_edges To_error_handler = None"

datatype successor = Goto node | End | Unknown_destination

fun next_node :: "node \<Rightarrow> state \<Rightarrow> successor" where
  "next_node Chief_coordinator st =
     (case coordinator_edges (route_from_coordinator st) of
        Some n \<Rightarrow> Goto n | None \<Rightarrow> Unknown_destination)"
| "next_node (Supervisor d) st =
     (case division_edges (route_from_division st) of
        Some n \<Rightarrow> Goto n | None \<Rightarrow> Unknown_destination)"
| "next_node Response_aggregator st = End"
| "next_node Error_handler st = End"

text \<open>
  The run of the graph from a node: the trace of the nodes executed, each with the
  state after it, and whether the run reached \<open>END\<close> (it does not when a routing
  function returns a string that its edge mapping does not know).
\<close>

function run_from :: "py \<Rightarrow> node \<Rightarrow> state \<Rightarrow> (node \<times> state) list \<times> bool" where
  "run_from P n st =
     (let st' = run_node P n st
      in case next_node n st' of
           End \<Rightarrow> ([(n, st')], True)
         | Unknown_destination \<Rightarrow> ([(n, st')], False)
         | Goto n' \<Rightarrow>
             (case run_from P n' st' of (trace, ok) \<Rightarrow> ((n, st') # trace, ok)))"
  by pat_completeness auto
termination
proof (relation "measure (\<lambda>(P, n, st).
         case n of
           Chief_coordinator \<Rightarrow> 2 + length (next_divisions (run_node P n st))
         | Supervisor d \<Rightarrow> 1 + length (pending_divisions (run_node P n st))
         | _ \<Rightarrow> 0)", goal_cases)
  case 1
  show ?case by simp
next
  case (2 P n st st' n')
  have sup_next: "next_divisions (run_node P (Supervisor d) s) = next_divisions s" for d s
    by (simp add: run_node_def division_supervisor_def Let_def)
  have sup_done: "division_value d \<in> set (completed_divisions (run_node P (Supervisor d) s))" for d s
    by (simp add: run_node_def division_supervisor_def Let_def)
  have sup_mono: "set (completed_divisions s) \<subseteq> set (completed_divisions (run_node P (Supervisor d) s))" for d s
    by (auto simp: run_node_def division_supervisor_def Let_def)
  have named: "\<exists>d. m = Supervisor d \<and> division_value d = name" if "supervisor_named name = Some m" for name m
    using that by (auto simp: supervisor_named_def find_Some_iff)
  have shrink: "length (pending_divisions (run_node P (Supervisor d) s)) < length (pending_divisions s)"
    if "division_value d \<in> set (pending_divisions s)" for d s
  proof -
    let ?Q = "\<lambda>x. x \<notin> set (completed_divisions (run_node P (Supervisor d) s))"
    have "pending_divisions (run_node P (Supervisor d) s) = filter ?Q (pending_divisions s)"
      unfolding pending_divisions_def sup_next filter_filter
      by (rule filter_cong) (use sup_mono[of s d] in auto)
    moreover have "length (filter ?Q (pending_divisions s)) < length (pending_divisions s)"
      by (rule length_filter_less[OF that]) (simp add: sup_done)
    ultimately show ?thesis by simp
  qed
  have le: "length (pending_divisions s) \<le> length (next_divisions s)" for s
    by (simp add: pending_divisions_def)
  from 2 have st': "st' = run_node P n st" and nx: "next_node n st' = Goto n'" by simp_all
  show ?case
  proof (cases n)
    case Chief_coordinator
    show ?thesis
    proof (cases n')
      case (Supervisor d')
      have "length (pending_divisions (run_node P (Supervisor d') st')) \<le> length (next_divisions st')"
        using le[of "run_node P (Supervisor d') st'"] by (simp add: sup_next)
      then show ?thesis using Chief_coordinator Supervisor st' by simp
    next
      case Chief_coordinator
      with nx \<open>n = Chief_coordinator\<close> show ?thesis
        by (auto simp: route_from_coordinator_def split: option.splits if_splits list.splits dest: named)
    qed (use Chief_coordinator st' in simp_all)
  next
    case (Supervisor d)
    show ?thesis
    proof (cases n')
      case (Supervisor d')
      from nx \<open>n = Supervisor d\<close> Supervisor
      have "supervisor_named (hd (pending_divisions st')) = Some (Supervisor d')"
        and "pending_divisions st' \<noteq> []"
        by (auto simp: route_from_division_def split: option.splits list.splits)
      then have "division_value d' \<in> set (pending_divisions st')"
        using named[of "hd (pending_divisions st')" "Supervisor d'"] by auto
      from shrink[OF this] show ?thesis
        using \<open>n = Supervisor d\<close> Supervisor st' by simp
    next
      case Chief_coordinator
      with nx \<open>n = Supervisor d\<close> show ?thesis
        by (auto simp: route_from_division_def split: option.splits list.splits dest: named)
    qed (use Supervisor st' in simp_all)
  next
    case Response_aggregator
    with nx show ?thesis by simp
  next
    case Error_handler
    with nx show ?thesis by simp
  qed
qed

text \<open>
  The run of the whole graph, from its entry point; \<open>st\<close> is the state of the channels
  once the input of the request has been written to them.
\<close>

definition run_graph :: "py \<Rightarrow> state \<Rightarrow> (node \<times> state) list \<times> bool" where
  "run_graph P st = run_from P Chief_coordinator st"

section \<open>An ASCII instance of the built-ins\<close>

text \<open>
  On ASCII text the built-ins are these functions; they serve to evaluate the program
  on concrete inputs.
\<close>

definition ascii_lower_char :: "nat \<Rightarrow> nat" where
  "ascii_lower_char c = (if 65 \<le> c \<and> c \<le> 90 then c + 32 else c)"

definition ascii_upper_char :: "nat \<Rightarrow> nat" where
  "ascii_upper_char c = (if 97 \<le> c \<and> c \<le> 122 then c - 32 else c)"

definition ascii_is_cased :: "nat \<Rightarrow> bool" where
  "ascii_is_cased c = ((65 \<le> c \<and> c \<le> 90) \<or> (97 \<le> c \<and> c \<le> 122))"

fun ascii_title_from :: "bool \<Rightarrow> pystr \<Rightarrow> pystr" where
  "ascii_title_from prev [] = []"
| "ascii_title_from prev (c # cs) =
     (if prev then ascii_lower_char c else ascii_upper_char c)
       # ascii_title_from (ascii_is_cased c) cs"

fun ascii_str :: "pyval \<Rightarrow> pystr" where
  "ascii_str (PStr s) = s"
| "ascii_str (PDict d) = ascii ''{...}''"
| "ascii_str (PObj n) = ascii ''<object>''"

definition ascii_py :: py where
  "ascii_py = \<lparr> str_lower = map ascii_lower_char,
                str_title = ascii_title_from False,
                re_ieq = (\<lambda>p c. ascii_lower_char p = ascii_lower_char c),
                py_str = ascii_str,
                hash_str = (\<lambda>q. ascii ''0'') \<rparr>"

declare run_from.simps [simp del]

text \<open>The nodes that a run of the graph visits, in order, and the state it ends in.\<close>

definition visited :: "py \<Rightarrow> state \<Rightarrow> node list" where
  "visited P st = map fst (fst (run_graph P st))"

definition final_state :: "py \<Rightarrow> state \<Rightarrow> state" where
  "final_state P st = snd (last (fst (run_graph P st)))"

section \<open>Notions for the statements about runs\<close>

text \<open>
  The query that \<open>chief_coordinator\<close> reads from a state with messages, and the tier
  that \<open>determine_model_tier\<close> returns to it.
\<close>

definition last_query :: "state \<Rightarrow> pystr" where
  "last_query st = msg_content (last (messages st))"

definition chosen_tier :: "py \<Rightarrow> state \<Rightarrow> tier" where
  "chosen_tier P st = determine_model_tier (classify_task P (last_query st)) (last_query st)"

text \<open>The number of entries of \<open>division_results\<close> under a name.\<close>

definition entries_under :: "pystr \<Rightarrow> state \<Rightarrow> nat" where
  "entries_under name st = length (filter (\<lambda>item. fst item = name) (division_results st))"

text \<open>
  The invariant of a run that started in \<open>st0\<close>: no name is twice in
  \<open>completed_divisions\<close>, no key is twice in \<open>division_results\<close>, and every name
  that has joined \<open>completed_divisions\<close> since \<open>st0\<close> has a result.
\<close>

definition tracked :: "state \<Rightarrow> state \<Rightarrow> bool" where
  "tracked st0 s \<longleftrightarrow>
     distinct (completed_divisions s) \<and>
     distinct (map fst (division_results s)) \<and>
     (\<forall>name \<in> set (completed_divisions s).
        name \<in> set (completed_divisions st0) \<or> name \<in> fst ` set (division_results s))"

section \<open>Concrete states\<close>

text \<open>The state that \<open>process_request\<close> creates, before the query is added.\<close>

definition fresh_state :: state where
  "fresh_state = create_initial_state (ascii ''user'') (ascii ''brand'') None (ascii ''now'')"

text \<open>The state after the supervisors of two divisions have run.\<close>

definition two_division_state :: state where
  "two_division_state =
     run_node ascii_py (Supervisor ANALYTICS)
       (run_node ascii_py (Supervisor STRATEGIC_PLANNING)
          (fresh_state\<lparr> next_divisions :=
             [division_value STRATEGIC_PLANNING, division_value ANALYTICS] \<rparr>))"

text \<open>
  The state after the supervisor of one division has run on a state that holds an
  error, with one more division pending.
\<close>

definition error_pending_state :: state where
  "error_pending_state =
     run_node ascii_py (Supervisor STRATEGIC_PLANNING)
       (fresh_state\<lparr> next_divisions :=
                       [division_value STRATEGIC_PLANNING, division_value ANALYTICS],
                     error := Err (ascii ''boom'') \<rparr>)"

text \<open>A request whose query names a sales channel.\<close>

definition kakao_state :: state where
  "kakao_state = fresh_state\<lparr> messages := [input_message (ascii ''kakao'')] \<rparr>"

text \<open>A request whose query matches a pattern of several divisions.\<close>

definition prelaunch_state :: state where
  "prelaunch_state = fresh_state\<lparr> messages := [input_message (ascii ''Pre Launch'')] \<rparr>"

text \<open>The states of the run on \<open>kakao_state\<close> after its first and its second node.\<close>

definition kakao_routed :: state where
  "kakao_routed = run_node ascii_py Chief_coordinator kakao_state"

definition kakao_served :: state where
  "kakao_served = run_node ascii_py (Supervisor CHANNEL_MANAGEMENT) kakao_routed"


section \<open>Proofs: the classifier\<close>

lemma update_fresh: "k \<notin> fst ` set al \<Longrightarrow> AList.update k v al = al @ [(k, v)]"
  by (induction al) auto

lemma collect_scores_eq:
  "distinct (map fst tbl) \<Longrightarrow> fst ` set tbl \<inter> fst ` set acc = {} \<Longrightarrow>
   collect_scores P ql tbl acc =
     acc @ filter (\<lambda>(t, s). s > 0) (map (\<lambda>(t, kws). (t, keyword_score P kws ql)) tbl)"
proof (induction tbl arbitrary: acc)
  case Nil
  then show ?case by simp
next
  case (Cons a tbl)
  obtain t kws where a: "a = (t, kws)" by (cases a)
  from Cons.prems have fresh: "t \<notin> fst ` set acc" and d: "distinct (map fst tbl)"
    and nt: "t \<notin> fst ` set tbl" and dis: "fst ` set tbl \<inter> fst ` set acc = {}"
    by (auto simp: a)
  show ?case
  proof (cases "keyword_score P kws ql > 0")
    case True
    have "fst ` set tbl \<inter> fst ` set (acc @ [(t, keyword_score P kws ql)]) = {}"
      using nt dis by auto
    from Cons.IH[OF d this] True fresh show ?thesis
      by (simp add: a update_fresh Let_def)
  next
    case False
    from Cons.IH[OF d dis] False show ?thesis by (simp add: a Let_def)
  qed
qed

lemma py_max_key_find:
  "find (\<lambda>y. f y = Max (f ` set (b # xs))) (b # xs) = Some (py_max_key f b xs)"
proof (induction xs arbitrary: b)
  case Nil
  then show ?case by simp
next
  case (Cons x xs)
  let ?b = "if f b < f x then x else b"
  let ?M = "Max (f ` set (b # x # xs))"
  have M: "?M = Max (f ` set (?b # xs))"
  proof (cases xs)
    case Nil then show ?thesis by (auto simp: max_def)
  next
    case (Cons y ys)
    then have ne: "f ` set xs \<noteq> {}" by simp
    show ?thesis using ne by (auto simp: Max_insert max_def)
  qed
  have bM: "f b \<le> ?M" by (rule Max_ge) simp_all
  have xM: "f x \<le> ?M" by (rule Max_ge) simp_all
  have "find (\<lambda>y. f y = ?M) (b # x # xs) = find (\<lambda>y. f y = ?M) (?b # xs)"
    using bM xM by auto
  also have "\<dots> = Some (py_max_key f ?b xs)"
    using Cons.IH[of ?b] M by simp
  finally show ?case by simp
qed


lemma score_of_distinct:
  "distinct (map fst ps) \<Longrightarrow> (t, s) \<in> set ps \<Longrightarrow> score_of ps t = s"
  by (simp add: score_of_def)

lemma find_filter_implied:
  "(\<And>x. P x \<Longrightarrow> Q x) \<Longrightarrow> find P (filter Q xs) = find P xs"
  by (induction xs) auto

lemma find_map_option:
  "find P (map g xs) = map_option g (find (\<lambda>x. P (g x)) xs)"
  by (induction xs) auto

lemma find_keys:
  "distinct (map fst ps) \<Longrightarrow>
   find (\<lambda>y. score_of ps y = m) (map fst ps) = map_option fst (find (\<lambda>(t, s). s = m) ps)"
proof -
  assume d: "distinct (map fst ps)"
  have "find (\<lambda>y. score_of ps y = m) (map fst ps)
        = map_option fst (find (\<lambda>x. score_of ps (fst x) = m) ps)"
    by (rule find_map_option)
  also have "find (\<lambda>x. score_of ps (fst x) = m) ps = find (\<lambda>(t, s). s = m) ps"
    by (rule find_cong) (auto simp: score_of_distinct[OF d])
  finally show ?thesis .
qed

lemma first_max_generic:
  assumes d: "distinct (map fst scored)"
  shows "(case map fst (filter (\<lambda>(t, s). s > 0) scored) of
            [] \<Rightarrow> G
          | k # ks \<Rightarrow> py_max_key (score_of (filter (\<lambda>(t, s). s > 0) scored)) k ks) =
         (let best = Max (set (0 # map snd scored))
          in if best = 0 then G
             else case find (\<lambda>(t, s). s = best) scored of
                    Some (t, s) \<Rightarrow> t
                  | None \<Rightarrow> G)"
proof -
  define pos where "pos = filter (\<lambda>(t, s). s > 0) scored"
  define best where "best = Max (set (0 # map snd scored))"
  have dpos: "distinct (map fst pos)"
    using d by (simp add: pos_def distinct_map_filter)
  have goal: "(case map fst pos of [] \<Rightarrow> G | k # ks \<Rightarrow> py_max_key (score_of pos) k ks) =
              (if best = 0 then G
               else case find (\<lambda>(t, s). s = best) scored of Some (t, s) \<Rightarrow> t | None \<Rightarrow> G)"
  proof (cases pos)
    case Nil
    then have "\<forall>p \<in> set scored. snd p = 0"
      by (auto simp: pos_def filter_empty_conv)
    then have "set (0 # map snd scored) = {0}" by auto
    then have "best = 0" unfolding best_def by (simp only: Max_singleton)
    with Nil show ?thesis by simp
  next
    case (Cons p rest)
    obtain k s where p: "p = (k, s)" by (cases p)
    define f where "f = score_of pos"
    define M where "M = Max (f ` set (map fst pos))"
    define r where "r = py_max_key f k (map fst rest)"
    have img: "f ` set (map fst pos) = snd ` set pos"
      unfolding f_def using score_of_distinct[OF dpos] by (force simp: image_iff)
    have kin: "(k, s) \<in> set pos" using Cons p by simp
    then have spos: "s > 0" by (auto simp: pos_def)
    from kin have sin: "s \<in> snd ` set pos" by force
    have "s \<le> Max (snd ` set pos)" using sin by (intro Max_ge) auto
    then have Mpos: "M > 0" using spos by (simp only: M_def img)
    have "set (0 # map snd scored) = insert 0 (snd ` set pos)"
      by (force simp: pos_def)
    then have "best = Max (insert 0 (snd ` set pos))" by (simp only: best_def)
    also have "\<dots> = max 0 (Max (snd ` set pos))"
      using sin by (intro Max_insert) auto
    also have "\<dots> = Max (snd ` set pos)" by (rule max_0L)
    also have "\<dots> = M" by (simp only: M_def img)
    finally have best: "best = M" .
    have "find (\<lambda>y. f y = Max (f ` set (k # map fst rest))) (k # map fst rest) = Some r"
      unfolding r_def by (rule py_max_key_find)
    moreover have "k # map fst rest = map fst pos" using Cons p by simp
    ultimately have "find (\<lambda>y. f y = M) (map fst pos) = Some r"
      by (simp only: M_def)
    then have A: "map_option fst (find (\<lambda>(t, s). s = M) pos) = Some r"
      by (simp only: f_def find_keys[OF dpos])
    have B: "find (\<lambda>(t, s). s = M) pos = find (\<lambda>(t, s). s = M) scored"
      unfolding pos_def using Mpos by (intro find_filter_implied) auto
    have C: "map_option fst (find (\<lambda>(t, s). s = best) scored) = Some r"
      using A by (simp only: B best)
    have "best \<noteq> 0" using Mpos best by simp
    moreover have "(case map fst pos of [] \<Rightarrow> G | k # ks \<Rightarrow> py_max_key (score_of pos) k ks) = r"
      using Cons p by (simp add: r_def f_def)
    ultimately show ?thesis using C by (auto split: option.splits)
  qed
  show ?thesis
    unfolding Let_def using goal by (simp only: pos_def best_def)
qed

lemma distinct_TASK_KEYWORDS: "distinct (map fst TASK_KEYWORDS)"
  by (simp add: TASK_KEYWORDS_def)

lemma classify_task_scores:
  "collect_scores P (str_lower P q) TASK_KEYWORDS [] =
     filter (\<lambda>(t, s). s > 0) (scored_table P q TASK_KEYWORDS)"
  using collect_scores_eq[OF distinct_TASK_KEYWORDS, of "[]" P "str_lower P q"]
  by (simp add: scored_table_def)

lemma classify_refines: "classify_task P q = classify_spec P q"
proof -
  have d: "distinct (map fst (scored_table P q TASK_KEYWORDS))"
    using distinct_TASK_KEYWORDS by (simp add: scored_table_def comp_def case_prod_beta)
  show ?thesis
    unfolding classify_task_def classify_spec_def Let_def classify_task_scores
    by (rule first_max_generic[OF d, unfolded Let_def])
qed








section \<open>Proofs: the router and the tier policy\<close>

lemma first_pattern_find:
  "first_pattern P ql pcs = map_option divisions (find (\<lambda>pc. re_search P (pattern pc) ql) pcs)"
  by (induction pcs) auto

lemma case_find_first_pattern:
  "(case find (\<lambda>pc. re_search P (pattern pc) ql) pcs of
      Some pc \<Rightarrow> divisions pc | None \<Rightarrow> dflt) =
   (case first_pattern P ql pcs of Some ds \<Rightarrow> ds | None \<Rightarrow> dflt)"
  by (simp add: first_pattern_find split: option.splits)

lemma find_Some_mem: "find Q xs = Some x \<Longrightarrow> x \<in> set xs"
  by (metis find_Some_iff nth_mem)

lemma first_pattern_distinct:
  "first_pattern P ql MULTI_DIVISION_PATTERNS = Some ds \<Longrightarrow> distinct ds"
  by (auto simp: MULTI_DIVISION_PATTERNS_def split: if_splits)

text \<open>
  C2. For every query and category, \<open>determine_divisions\<close> returns the division list
  of the first pattern of \<open>MULTI_DIVISION_PATTERNS\<close>, in declared order, whose regular
  expression is found in the lower-cased query; when no pattern matches it returns the
  one-element list of the category's entry in \<open>TASK_TO_DIVISION\<close>, or the empty list
  when the category has no entry. The result is the declared list itself, so it keeps
  the declared order, and it never holds a division twice.
\<close>

theorem determine_divisions_first_pattern:
  "determine_divisions P query task =
     (case find (\<lambda>pc. re_search P (pattern pc) (str_lower P query)) MULTI_DIVISION_PATTERNS of
        Some pc \<Rightarrow> divisions pc
      | None \<Rightarrow> (case TASK_TO_DIVISION task of Some d \<Rightarrow> [d] | None \<Rightarrow> []))
   \<and> distinct (determine_divisions P query task)"
proof
  show "determine_divisions P query task =
     (case find (\<lambda>pc. re_search P (pattern pc) (str_lower P query)) MULTI_DIVISION_PATTERNS of
        Some pc \<Rightarrow> divisions pc
      | None \<Rightarrow> (case TASK_TO_DIVISION task of Some d \<Rightarrow> [d] | None \<Rightarrow> []))"
    by (simp add: determine_divisions_def first_pattern_find split: option.splits)
  show "distinct (determine_divisions P query task)"
    by (auto simp: determine_divisions_def dest: first_pattern_distinct split: option.splits)
qed

lemma ascii_prelaunch_lower:
  "str_lower ascii_py (ascii ''Pre Launch'') = ascii ''pre launch''"
  by (simp add: ascii_def ascii_py_def ascii_lower_char_def)

lemma ascii_prelaunch_first:
  "first_pattern ascii_py (ascii ''pre launch'') MULTI_DIVISION_PATTERNS
     = Some [OPERATIONS, CHANNEL_MANAGEMENT]"
  by (simp add: MULTI_DIVISION_PATTERNS_def lit_gap_lit_def ascii_def ascii_py_def
      ascii_lower_char_def)

theorem determine_divisions_first_pattern_witness:
  "determine_divisions ascii_py (ascii ''Pre Launch'') GENERAL_QUERY
     = [OPERATIONS, CHANNEL_MANAGEMENT]
   \<and> distinct (determine_divisions ascii_py (ascii ''Pre Launch'') GENERAL_QUERY)"
  using determine_divisions_first_pattern[of ascii_py "ascii ''Pre Launch''" GENERAL_QUERY]
  by (simp add: case_find_first_pattern ascii_prelaunch_lower ascii_prelaunch_first)

text \<open>
  C4. For every category and query, \<open>determine_model_tier\<close> applies the rules of
  \<open>tier_policy\<close> in order, the first match winning: a category of the no-model set
  gives the no-model tier, a category of the cheap set the cheap tier, a query shorter
  than 50 characters with a category outside the always-expensive set the cheap tier,
  and everything else the full-model tier.
\<close>

theorem determine_model_tier_policy:
  "determine_model_tier task query = select_tier task query"
  by (simp add: determine_model_tier_def select_tier_def tier_policy_def)

theorem determine_model_tier_policy_witness:
  "select_tier CHANNEL_STATUS [] = Tier1_free \<and>
   select_tier CHECKLIST_VALIDATION (replicate 60 97) = Tier2_cheap \<and>
   select_tier GENERAL_QUERY (replicate 49 97) = Tier2_cheap \<and>
   select_tier GENERAL_QUERY (replicate 50 97) = Tier3_full \<and>
   select_tier PROMOTION_PLANNING [] = Tier3_full"
  using determine_model_tier_policy[of CHANNEL_STATUS "[]"]
    determine_model_tier_policy[of CHECKLIST_VALIDATION "replicate 60 97"]
    determine_model_tier_policy[of GENERAL_QUERY "replicate 49 97"]
    determine_model_tier_policy[of GENERAL_QUERY "replicate 50 97"]
    determine_model_tier_policy[of PROMOTION_PLANNING "[]"]
  by (simp add: determine_model_tier_def)

lemma keyword_categories:
  "map fst TASK_KEYWORDS =
     [PROMOTION_PLANNING, TIMELINE_MANAGEMENT, BUDGET_ALLOCATION, NEWS_SCOUTING,
      COMPETITOR_ANALYSIS, INGREDIENT_TRENDS, SEASONAL_ANALYSIS, CHANNEL_STATUS, PRICE_SYNC,
      SENTIMENT_ANALYSIS, PROMOTION_REVIEW, BUNDLE_ANALYSIS, MARGIN_CALCULATION,
      STOCKOUT_PREDICTION, INFLUENCER_ROI, ATTRIBUTION, INVENTORY_MONITORING,
      PRICE_MONITORING, CHECKLIST_VALIDATION]"
  by (simp add: TASK_KEYWORDS_def)

lemma classify_spec_range:
  "classify_spec P q = GENERAL_QUERY \<or> classify_spec P q \<in> set (map fst TASK_KEYWORDS)"
proof -
  have "t \<in> set (map fst TASK_KEYWORDS)"
    if "find (\<lambda>(t, s). s = b) (scored_table P q TASK_KEYWORDS) = Some (t, s)" for b t s
  proof -
    from that have "(t, s) \<in> set (scored_table P q TASK_KEYWORDS)"
      by (rule find_Some_mem)
    then show ?thesis by (force simp: scored_table_def)
  qed
  then show ?thesis
    unfolding classify_spec_def Let_def
    by (auto split: option.splits simp del: set_map)
qed

text \<open>
  C10. For every query, \<open>classify_task\<close> never returns \<open>INVENTORY_CHECK\<close> or
  \<open>CROSS_CHANNEL\<close>, which own no keyword list: its result is the default
  \<open>GENERAL_QUERY\<close> or a category that owns a keyword list. The entries of
  \<open>TASK_TO_DIVISION\<close> that send those two task types to channel management are
  therefore never reached through classification.
\<close>

theorem classify_task_never_unkeyed:
  "classify_task P query \<notin> {INVENTORY_CHECK, CROSS_CHANNEL} \<and>
   (classify_task P query = GENERAL_QUERY \<or> classify_task P query \<in> set (map fst TASK_KEYWORDS)) \<and>
   map_of TASK_KEYWORDS INVENTORY_CHECK = None \<and>
   map_of TASK_KEYWORDS CROSS_CHANNEL = None \<and>
   TASK_TO_DIVISION INVENTORY_CHECK = Some CHANNEL_MANAGEMENT \<and>
   TASK_TO_DIVISION CROSS_CHANNEL = Some CHANNEL_MANAGEMENT"
proof -
  have r: "classify_task P query = GENERAL_QUERY \<or> classify_task P query \<in> set (map fst TASK_KEYWORDS)"
    using classify_spec_range[of P query] by (simp only: classify_refines)
  have n1: "INVENTORY_CHECK \<notin> set (map fst TASK_KEYWORDS)"
    and n2: "CROSS_CHANNEL \<notin> set (map fst TASK_KEYWORDS)"
    by (simp_all only: keyword_categories) simp_all
  have m1: "map_of TASK_KEYWORDS INVENTORY_CHECK = None"
    using n1 by (simp add: map_of_eq_None_iff)
  have m2: "map_of TASK_KEYWORDS CROSS_CHANNEL = None"
    using n2 by (simp add: map_of_eq_None_iff)
  from r n1 n2 have "classify_task P query \<notin> {INVENTORY_CHECK, CROSS_CHANNEL}"
    by (auto simp del: set_map)
  with r m1 m2 show ?thesis by simp
qed

section \<open>Proofs: the nodes and the routing functions\<close>

lemma fold_max_mono: "(a::nat) \<le> fold max xs a"
proof (induction xs arbitrary: a)
  case Nil
  then show ?case by simp
next
  case (Cons y ys)
  have "a \<le> max y a" by simp
  also have "\<dots> \<le> fold max ys (max y a)" by (rule Cons.IH)
  finally show ?case by simp
qed

lemma fold_max_ge: "x \<in> set xs \<Longrightarrow> x \<le> fold max xs (a::nat)"
proof (induction xs arbitrary: a)
  case Nil
  then show ?case by simp
next
  case (Cons y ys)
  show ?case
  proof (cases "x = y")
    case True
    have "y \<le> max y a" by simp
    also have "\<dots> \<le> fold max ys (max y a)" by (rule fold_max_mono)
    finally show ?thesis using True by simp
  next
    case False
    with Cons show ?thesis by simp
  qed
qed

lemma fresh_id_fresh: "fresh_id used \<notin> set used"
  using fold_max_ge[of "fresh_id used" used 0] by (auto simp: fresh_id_def)

lemma last_index_None: "last_index i ms = None \<longleftrightarrow> i \<notin> msg_id ` set ms"
  by (induction ms) (auto split: option.splits)

lemma ids_of_mem: "Some i \<in> msg_id ` set ms \<longleftrightarrow> i \<in> set (ids_of ms)"
  by (induction ms) (auto simp: ids_of_def map_filter_simps split: option.splits)

lemma assign_ids_content: "map msg_content (assign_ids used ms) = map msg_content ms"
  by (induction ms arbitrary: used) (auto split: option.splits)

lemma assign_ids_role: "map msg_role (assign_ids used ms) = map msg_role ms"
  by (induction ms arbitrary: used) (auto split: option.splits)

lemma add_messages_new:
  "add_messages left [AIMessage text] =
     assign_ids (ids_of left) left @
       [\<lparr> msg_id = Some (fresh_id (ids_of (assign_ids (ids_of left) left))),
          msg_role = Assistant, msg_content = text \<rparr>]"
proof -
  let ?left = "assign_ids (ids_of left) left"
  let ?f = "fresh_id (ids_of ?left)"
  have "Some ?f \<notin> msg_id ` set ?left"
    using fresh_id_fresh[of "ids_of ?left"] by (simp add: ids_of_mem)
  then have "last_index (Some ?f) ?left = None" by (simp add: last_index_None)
  then show ?thesis
    by (simp add: add_messages_def AIMessage_def ids_of_def map_filter_simps Let_def
        merge_message_def)
qed

lemma run_node_supervisor:
  "next_divisions (run_node P (Supervisor d) st) = next_divisions st"
  "error (run_node P (Supervisor d) st) = error st"
  "completed_divisions (run_node P (Supervisor d) st) =
     (if division_value d \<in> set (completed_divisions st) then completed_divisions st
      else completed_divisions st @ [division_value d])"
  "division_results (run_node P (Supervisor d) st) =
     AList.update (division_value d) (division_result P (division_value d)) (division_results st)"
  by (simp_all add: run_node_def division_supervisor_def Let_def)

lemma run_node_terminal:
  "completed_divisions (run_node P Response_aggregator st) = completed_divisions st"
  "division_results (run_node P Response_aggregator st) = division_results st"
  "completed_divisions (run_node P Error_handler st) = completed_divisions st"
  "division_results (run_node P Error_handler st) = division_results st"
  "messages (run_node P Response_aggregator st) =
     add_messages (messages st) [AIMessage (aggregated_response P st)]"
  "messages (run_node P Error_handler st) =
     add_messages (messages st) [AIMessage (error_message st)]"
  by (simp_all add: run_node_def response_aggregator_def error_handler_def)

lemma run_node_coordinator:
  "completed_divisions (run_node P Chief_coordinator st) = completed_divisions st"
  "division_results (run_node P Chief_coordinator st) = division_results st"
  by (simp_all add: run_node_def chief_coordinator_def coordinator_result_def Let_def)

lemma run_from_terminal:
  "run_from P Error_handler st = ([(Error_handler, run_node P Error_handler st)], True)"
  "run_from P Response_aggregator st =
     ([(Response_aggregator, run_node P Response_aggregator st)], True)"
  by (simp_all add: run_from.simps)

lemma coordinator_no_messages:
  assumes "messages st = []"
  shows "run_node P Chief_coordinator st = st\<lparr> error := Err (ascii ''No messages to process'') \<rparr>"
  using assms
  by (simp add: run_node_def chief_coordinator_def add_messages_def ids_of_def map_filter_simps)

lemma ascii_nonempty: "ascii (c # cs) \<noteq> []"
  by (simp add: ascii_def)

text \<open>
  C5. When the coordinator runs on a state whose message list is empty, it sets the
  error \<open>No messages to process\<close>; the graph then visits the error handler and nothing
  else, so no division is visited and \<open>completed_divisions\<close> is what it was; the run
  ends, and its only message is the assistant message that the error template makes of
  the stored error.
\<close>

theorem empty_messages_error_path:
  assumes "messages st = []"
  shows "error (run_node P Chief_coordinator st) = Err (ascii ''No messages to process'') \<and>
         visited P st = [Chief_coordinator, Error_handler] \<and>
         snd (run_graph P st) \<and>
         completed_divisions (final_state P st) = completed_divisions st \<and>
         map msg_role (messages (final_state P st)) = [Assistant] \<and>
         map msg_content (messages (final_state P st)) =
           [error_message (run_node P Chief_coordinator st)] \<and>
         error_message (run_node P Chief_coordinator st) =
           ascii ''An error occurred while processing your request: '' @
           ascii ''No messages to process''"
proof -
  let ?st1 = "st\<lparr> error := Err (ascii ''No messages to process'') \<rparr>"
  have c: "run_node P Chief_coordinator st = ?st1"
    by (rule coordinator_no_messages[OF assms])
  have nx: "route_from_coordinator ?st1 = To_error_handler"
    by (simp add: route_from_coordinator_def ascii_nonempty)
  have run: "run_graph P st =
      ([(Chief_coordinator, ?st1), (Error_handler, run_node P Error_handler ?st1)], True)"
    unfolding run_graph_def
    by (subst run_from.simps) (simp add: c nx run_from_terminal Let_def)
  have msgs: "messages (run_node P Error_handler ?st1) =
      [\<lparr> msg_id = Some (fresh_id []), msg_role = Assistant,
         msg_content = error_message ?st1 \<rparr>]"
    using assms by (simp add: run_node_terminal add_messages_new ids_of_def map_filter_simps)
  have comp: "completed_divisions (run_node P Error_handler ?st1) = completed_divisions st"
    by (simp add: run_node_terminal)
  show ?thesis
    by (simp add: c visited_def final_state_def run msgs comp error_message_def)
qed

theorem empty_messages_error_path_witness:
  "messages fresh_state = [] \<and>
   visited ascii_py fresh_state = [Chief_coordinator, Error_handler] \<and>
   completed_divisions (final_state ascii_py fresh_state) = [] \<and>
   map msg_content (messages (final_state ascii_py fresh_state)) =
     [ascii ''An error occurred while processing your request: '' @
      ascii ''No messages to process'']"
proof -
  have m: "messages fresh_state = []"
    and c: "completed_divisions fresh_state = []"
    by (simp_all add: fresh_state_def create_initial_state_def)
  from empty_messages_error_path[OF m, of ascii_py] m c show ?thesis by simp
qed

lemma division_value_inj: "division_value d = division_value d' \<Longrightarrow> d = d'"
  by (cases d; cases d'; simp add: ascii_def)

lemma supervisor_named_value: "supervisor_named (division_value d) = Some (Supervisor d)"
  by (cases d) (simp_all add: supervisor_named_def all_divisions_def ascii_def)

lemma supervisor_named_Some:
  "supervisor_named name = Some n \<Longrightarrow> \<exists>d. n = Supervisor d \<and> division_value d = name"
  by (auto simp: supervisor_named_def find_Some_iff)

lemma error_pending_fields:
  "error error_pending_state = Err (ascii ''boom'')"
  "next_divisions error_pending_state = [division_value STRATEGIC_PLANNING, division_value ANALYTICS]"
  "completed_divisions error_pending_state = [division_value STRATEGIC_PLANNING]"
  by (simp_all add: error_pending_state_def run_node_supervisor fresh_state_def
      create_initial_state_def)

lemma error_pending_pending:
  "pending_divisions error_pending_state = [division_value ANALYTICS]"
  by (simp add: pending_divisions_def error_pending_fields) (simp add: ascii_def)

lemma coordinator_with_messages:
  "messages st \<noteq> [] \<Longrightarrow>
   chief_coordinator P st =
     coordinator_result P st (last_query st) (classify_task P (last_query st))
       (determine_divisions P (last_query st) (classify_task P (last_query st)))
       (chosen_tier P st)"
  by (simp add: chief_coordinator_def last_query_def chosen_tier_def Let_def)

text \<open>
  C9. For every input state with a message, the state that the coordinator returns
  records of the chosen tier only the boolean \<open>use_mini_model\<close>, which holds exactly
  when \<open>determine_model_tier\<close> returned the cheap tier: the returned state is the same
  for a tier and for the cheap-or-full tier with the same boolean, so the no-model tier
  and the full-model tier give the same state, with \<open>use_mini_model\<close> false.
\<close>

theorem coordinator_records_only_cheap_flag:
  assumes "messages st \<noteq> []"
  shows "chief_coordinator P st =
           coordinator_result P st (last_query st) (classify_task P (last_query st))
             (determine_divisions P (last_query st) (classify_task P (last_query st)))
             (chosen_tier P st) \<and>
         use_mini_model (chief_coordinator P st) = (chosen_tier P st = Tier2_cheap) \<and>
         coordinator_result P st q task divs t =
           coordinator_result P st q task divs (if t = Tier2_cheap then Tier2_cheap else Tier3_full) \<and>
         coordinator_result P st q task divs Tier1_free =
           coordinator_result P st q task divs Tier3_full \<and>
         \<not> use_mini_model (coordinator_result P st q task divs Tier1_free)"
  using coordinator_with_messages[OF assms, of P]
  by (simp add: coordinator_result_def Let_def)

lemma ascii_kakao_lower: "str_lower ascii_py (ascii ''kakao'') = ascii ''kakao''"
  by (simp add: ascii_def ascii_py_def ascii_lower_char_def)

lemma ascii_kakao_scores:
  "collect_scores ascii_py (ascii ''kakao'') TASK_KEYWORDS [] = [(CHANNEL_STATUS, 1)]"
  by (simp add: TASK_KEYWORDS_def keyword_score_def ascii_def ascii_py_def
      ascii_lower_char_def sublist_Cons_right Let_def)

lemma ascii_kakao_classified: "classify_task ascii_py (ascii ''kakao'') = CHANNEL_STATUS"
  by (simp add: classify_task_def ascii_kakao_lower ascii_kakao_scores score_of_def)

lemma kakao_query:
  "messages kakao_state \<noteq> []" "last_query kakao_state = ascii ''kakao''"
  by (simp_all add: kakao_state_def last_query_def HumanMessage_def input_message_def)

theorem coordinator_records_only_cheap_flag_witness:
  "messages kakao_state \<noteq> [] \<and>
   chosen_tier ascii_py kakao_state = Tier1_free \<and>
   \<not> use_mini_model (chief_coordinator ascii_py kakao_state)"
proof -
  have t: "chosen_tier ascii_py kakao_state = Tier1_free"
    by (simp add: chosen_tier_def kakao_query ascii_kakao_classified determine_model_tier_def)
  from coordinator_records_only_cheap_flag[OF kakao_query(1), of ascii_py]
  have "use_mini_model (chief_coordinator ascii_py kakao_state) =
          (chosen_tier ascii_py kakao_state = Tier2_cheap)"
    by blast
  with t kakao_query(1) show ?thesis by simp
qed

section \<open>Proofs: the aggregator\<close>

lemma aggregator_sections:
  assumes "division_results st \<noteq> []"
  shows "response_parts P st = map (section_of P) (division_results st)"
    and "length (response_parts P st) = length (division_results st)"
    and "aggregated_response P st = py_join [10, 10] (map (section_of P) (division_results st))"
    and "map msg_content (messages (run_node P Response_aggregator st)) =
           map msg_content (messages st) @ [aggregated_response P st]"
  using assms
  by (simp_all add: response_parts_def aggregated_response_def run_node_terminal
      add_messages_new assign_ids_content)

lemma section_holds_summary: "sublist (summary_of P (snd item)) (section_of P item)"
  unfolding section_of_def
  by (metis append.assoc append_Nil2 sublist_appendI)

lemma ascii_display_names:
  "display_name ascii_py (division_value STRATEGIC_PLANNING) = ascii ''Strategic Planning''"
  "display_name ascii_py (division_value ANALYTICS) = ascii ''Analytics''"
  by (simp_all add: display_name_def ascii_py_def ascii_def ascii_lower_char_def
      ascii_upper_char_def ascii_is_cased_def)

lemma two_division_results:
  "division_results two_division_state =
     [(division_value STRATEGIC_PLANNING,
         division_result ascii_py (division_value STRATEGIC_PLANNING)),
      (division_value ANALYTICS, division_result ascii_py (division_value ANALYTICS))]"
proof -
  have "division_value STRATEGIC_PLANNING \<noteq> division_value ANALYTICS"
    by (simp add: ascii_def)
  then show ?thesis
    by (simp add: two_division_state_def run_node_supervisor fresh_state_def
        create_initial_state_def del: division_value.simps)
qed

lemma two_division_messages: "messages two_division_state = []"
  by (simp add: two_division_state_def run_node_def division_supervisor_def Let_def
      fresh_state_def create_initial_state_def add_messages_def ids_of_def map_filter_simps)

lemma two_division_sections:
  "section_of ascii_py (division_value STRATEGIC_PLANNING,
      division_result ascii_py (division_value STRATEGIC_PLANNING)) =
     ascii ''**Strategic Planning**: Strategic Planning division has processed the request.''"
  "section_of ascii_py (division_value ANALYTICS,
      division_result ascii_py (division_value ANALYTICS)) =
     ascii ''**Analytics**: Analytics division has processed the request.''"
  by (simp_all add: section_of_def division_result_def ascii_display_names
      del: division_value.simps) (simp_all add: ascii_def)

text \<open>
  The aggregator on \<open>two_division_state\<close>: its response is the two titled sections,
  in the order in which the divisions were visited, joined by an empty line.
\<close>

lemma aggregator_two_divisions:
  "map fst (division_results two_division_state) =
     [division_value STRATEGIC_PLANNING, division_value ANALYTICS] \<and>
   aggregated_response ascii_py two_division_state =
     ascii ''**Strategic Planning**: Strategic Planning division has processed the request.'' @
     [10, 10] @
     ascii ''**Analytics**: Analytics division has processed the request.'' \<and>
   map msg_content (messages (run_node ascii_py Response_aggregator two_division_state)) =
     [aggregated_response ascii_py two_division_state] \<and>
   map msg_role (messages (run_node ascii_py Response_aggregator two_division_state)) =
     [Assistant]"
proof -
  have r: "aggregated_response ascii_py two_division_state =
     ascii ''**Strategic Planning**: Strategic Planning division has processed the request.'' @
     [10, 10] @
     ascii ''**Analytics**: Analytics division has processed the request.''"
    by (simp add: aggregated_response_def response_parts_def two_division_results
        two_division_sections del: division_value.simps)
  have m: "messages (run_node ascii_py Response_aggregator two_division_state) =
     [\<lparr> msg_id = Some (fresh_id []), msg_role = Assistant,
        msg_content = aggregated_response ascii_py two_division_state \<rparr>]"
    by (simp add: run_node_terminal add_messages_new two_division_messages ids_of_def
        map_filter_simps)
  show ?thesis
    by (simp only: r m two_division_results) simp
qed

section \<open>Proofs: termination of the graph\<close>

lemma pending_le_next: "length (pending_divisions st) \<le> length (next_divisions st)"
  by (simp add: pending_divisions_def)

lemma pending_subset: "set (pending_divisions st) \<subseteq> set (next_divisions st)"
  by (auto simp: pending_divisions_def)

lemma supervisor_completes:
  "division_value d \<in> set (completed_divisions (run_node P (Supervisor d) st))"
  by (simp add: run_node_supervisor)

lemma completed_prefix: "prefix (completed_divisions st) (completed_divisions (run_node P n st))"
  by (cases n) (simp_all add: run_node_supervisor run_node_terminal run_node_coordinator)

lemma pending_after_supervisor:
  "pending_divisions (run_node P (Supervisor d) st) =
     filter (\<lambda>x. x \<noteq> division_value d) (pending_divisions st)"
  by (auto simp: pending_divisions_def run_node_supervisor intro: filter_cong)

lemma pending_shrinks:
  assumes "division_value d \<in> set (pending_divisions st)"
  shows "length (pending_divisions (run_node P (Supervisor d) st)) < length (pending_divisions st)"
  unfolding pending_after_supervisor
  by (rule length_filter_less[OF assms]) simp

lemma next_shrinks:
  assumes "division_value d \<in> set (next_divisions st)"
  shows "length (pending_divisions (run_node P (Supervisor d) st)) < length (next_divisions st)"
proof -
  have "pending_divisions (run_node P (Supervisor d) st) =
          filter (\<lambda>x. x \<notin> set (completed_divisions (run_node P (Supervisor d) st)))
            (next_divisions st)"
    by (simp add: pending_divisions_def run_node_supervisor(1))
  moreover have "length (filter (\<lambda>x. x \<notin> set (completed_divisions (run_node P (Supervisor d) st)))
            (next_divisions st)) < length (next_divisions st)"
    by (rule length_filter_less[OF assms]) (simp add: supervisor_completes)
  ultimately show ?thesis by simp
qed

lemma route_from_division_pending:
  "route_from_division st = To_supervisor p \<Longrightarrow>
   p \<in> set (next_divisions st) \<and> p \<notin> set (completed_divisions st)"
  by (auto simp: route_from_division_def pending_divisions_def filter_eq_Cons_iff
      split: list.splits)

lemma run_from_supervisor_step:
  "run_from P (Supervisor d) st =
     (case pending_divisions (run_node P (Supervisor d) st) of
        [] \<Rightarrow> ([(Supervisor d, run_node P (Supervisor d) st),
                (Response_aggregator,
                   run_node P Response_aggregator (run_node P (Supervisor d) st))], True)
      | p # ps \<Rightarrow>
          (case supervisor_named p of
             None \<Rightarrow> ([(Supervisor d, run_node P (Supervisor d) st)], False)
           | Some n' \<Rightarrow>
               (case run_from P n' (run_node P (Supervisor d) st) of
                  (trace, ok) \<Rightarrow> ((Supervisor d, run_node P (Supervisor d) st) # trace, ok))))"
  by (subst run_from.simps)
     (simp add: Let_def route_from_division_def run_from_terminal split: list.splits option.splits)

lemma run_from_supervisor_bound:
  assumes "set (next_divisions st) \<subseteq> range division_value"
  shows "snd (run_from P (Supervisor d) st) \<and>
         length (fst (run_from P (Supervisor d) st))
           \<le> length (pending_divisions (run_node P (Supervisor d) st)) + 2"
  using assms
proof (induction "length (pending_divisions (run_node P (Supervisor d) st))"
    arbitrary: d st rule: less_induct)
  case less
  let ?st = "run_node P (Supervisor d) st"
  show ?case
  proof (cases "pending_divisions ?st")
    case Nil
    then show ?thesis by (simp add: run_from_supervisor_step)
  next
    case (Cons p ps)
    then have "p \<in> set (pending_divisions ?st)" by simp
    with pending_subset[of ?st] less.prems have "p \<in> range division_value"
      by (auto simp: run_node_supervisor(1))
    then obtain d' where p: "p = division_value d'" by auto
    have pin: "division_value d' \<in> set (pending_divisions ?st)"
      using Cons p by simp
    have valid: "set (next_divisions ?st) \<subseteq> range division_value"
      using less.prems by (simp add: run_node_supervisor(1))
    note sh = pending_shrinks[OF pin, of P]
    from less.hyps[OF sh valid]
    have ih: "snd (run_from P (Supervisor d') ?st)"
      "length (fst (run_from P (Supervisor d') ?st))
         \<le> length (pending_divisions (run_node P (Supervisor d') ?st)) + 2"
      by simp_all
    have step: "run_from P (Supervisor d) st =
        ((Supervisor d, ?st) # fst (run_from P (Supervisor d') ?st),
         snd (run_from P (Supervisor d') ?st))"
      by (subst run_from_supervisor_step)
         (simp add: Cons p supervisor_named_value case_prod_beta del: division_value.simps)
    show ?thesis using ih sh by (simp add: step)
  qed
qed

lemma coordinator_next_valid:
  "messages st \<noteq> [] \<Longrightarrow>
   set (next_divisions (run_node P Chief_coordinator st)) \<subseteq> range division_value"
  by (auto simp: run_node_def chief_coordinator_def coordinator_result_def Let_def)

lemma coordinator_error_route:
  "messages st = [] \<Longrightarrow>
   route_from_coordinator (run_node P Chief_coordinator st) = To_error_handler"
  by (simp add: coordinator_no_messages route_from_coordinator_def ascii_nonempty)

lemma run_graph_bound:
  "snd (run_graph P st) \<and>
   length (fst (run_graph P st))
     \<le> length (next_divisions (run_node P Chief_coordinator st)) + 2"
proof -
  let ?st = "run_node P Chief_coordinator st"
  show ?thesis
  proof (cases "route_from_coordinator ?st")
    case To_error_handler
    then show ?thesis
      unfolding run_graph_def
      by (subst (1 2) run_from.simps) (simp add: Let_def run_from_terminal)
  next
    case To_response_aggregator
    then show ?thesis
      unfolding run_graph_def
      by (subst (1 2) run_from.simps) (simp add: Let_def run_from_terminal)
  next
    case (To_supervisor name)
    then have msgs: "messages st \<noteq> []"
      using coordinator_error_route[of st P] by auto
    from To_supervisor have name_in: "name \<in> set (next_divisions ?st)"
      by (auto simp: route_from_coordinator_def split: if_splits list.splits)
    note valid = coordinator_next_valid[OF msgs, of P]
    with name_in obtain d where d: "name = division_value d" by auto
    have step: "run_graph P st =
        ((Chief_coordinator, ?st) # fst (run_from P (Supervisor d) ?st),
         snd (run_from P (Supervisor d) ?st))"
      unfolding run_graph_def
      by (subst run_from.simps)
         (simp add: Let_def To_supervisor d supervisor_named_value case_prod_beta
            del: division_value.simps)
    from name_in d have "division_value d \<in> set (next_divisions ?st)" by simp
    from next_shrinks[OF this, of P] run_from_supervisor_bound[OF valid, of P d]
    show ?thesis by (simp add: step)
  qed
qed


lemma ascii_kakao_first_pattern:
  "first_pattern ascii_py (ascii ''kakao'') MULTI_DIVISION_PATTERNS = None"
  by (simp add: MULTI_DIVISION_PATTERNS_def lit_gap_lit_def ascii_def ascii_py_def
      ascii_lower_char_def)

lemma kakao_coordinated:
  "chief_coordinator ascii_py kakao_state =
     coordinator_result ascii_py kakao_state (ascii ''kakao'') CHANNEL_STATUS
       [CHANNEL_MANAGEMENT] Tier1_free"
  using coordinator_with_messages[OF kakao_query(1), of ascii_py]
  by (simp add: kakao_query(2) chosen_tier_def ascii_kakao_classified determine_divisions_def
      ascii_kakao_lower ascii_kakao_first_pattern determine_model_tier_def)

lemma kakao_coordinator:
  "next_divisions (run_node ascii_py Chief_coordinator kakao_state) =
     [division_value CHANNEL_MANAGEMENT]"
  "error (run_node ascii_py Chief_coordinator kakao_state) = Py_None"
  "completed_divisions (run_node ascii_py Chief_coordinator kakao_state) = []"
  "division_results (run_node ascii_py Chief_coordinator kakao_state) = []"
  unfolding run_node_def Let_def node_function.simps kakao_coordinated coordinator_result_def
  by (simp_all add: kakao_state_def fresh_state_def create_initial_state_def
      del: division_value.simps)

text \<open>
  C6. For every initial state the run of the graph ends, and it executes at most as
  many nodes as the coordinator routed divisions, plus two. The list
  \<open>completed_divisions\<close> only grows (every step extends it), the step of a division
  supervisor puts its division into the list before the routing is evaluated again,
  and the routing after a division targets a division of \<open>next_divisions\<close> that is not in
  the list.
\<close>

theorem graph_terminates_within_bound:
  "snd (run_graph P st) \<and>
   length (fst (run_graph P st))
     \<le> length (next_divisions (run_node P Chief_coordinator st)) + 2 \<and>
   prefix (completed_divisions s) (completed_divisions (run_node P n s)) \<and>
   division_value d \<in> set (completed_divisions (run_node P (Supervisor d) s)) \<and>
   (route_from_division s = To_supervisor p \<longrightarrow>
      p \<in> set (next_divisions s) \<and> p \<notin> set (completed_divisions s))"
  using run_graph_bound[of P st] completed_prefix[of s P n] supervisor_completes[of d P s]
    route_from_division_pending[of s p]
  by blast

theorem graph_terminates_within_bound_witness:
  "route_from_division error_pending_state = To_supervisor (division_value ANALYTICS) \<and>
   division_value ANALYTICS \<notin> set (completed_divisions error_pending_state) \<and>
   snd (run_graph ascii_py kakao_state) \<and>
   length (fst (run_graph ascii_py kakao_state)) \<le> 3"
proof -
  have r: "route_from_division error_pending_state = To_supervisor (division_value ANALYTICS)"
    by (simp add: route_from_division_def error_pending_pending del: division_value.simps)
  from graph_terminates_within_bound[where P = ascii_py and st = kakao_state
      and s = error_pending_state and p = "division_value ANALYTICS"
      and n = Chief_coordinator and d = ANALYTICS] r
  show ?thesis by (simp add: kakao_coordinator(1) del: division_value.simps)
qed

section \<open>Proofs: the invariants of a run\<close>

lemma entries_one:
  "distinct (map fst xs) \<Longrightarrow> k \<in> fst ` set xs \<Longrightarrow>
   length (filter (\<lambda>item. fst item = k) xs) = 1"
proof (induction xs)
  case Nil
  then show ?case by simp
next
  case (Cons x xs)
  show ?case
  proof (cases "fst x = k")
    case True
    with Cons.prems have "k \<notin> fst ` set xs" by auto
    then have "filter (\<lambda>item. fst item = k) xs = []"
      by (auto simp: filter_empty_conv)
    with True show ?thesis by simp
  next
    case False
    with Cons show ?thesis by auto
  qed
qed

lemma update_keys_set: "fst ` set (AList.update k v al) = insert k (fst ` set al)"
  by (induction al) auto

lemma results_keys_mono:
  "fst ` set (division_results s) \<subseteq> fst ` set (division_results (run_node P n s))"
  by (cases n)
     (auto simp: run_node_supervisor run_node_terminal run_node_coordinator update_keys_set)

lemma supervisor_records:
  "division_value d \<in> fst ` set (division_results (run_node P (Supervisor d) s))"
  by (simp add: run_node_supervisor update_keys_set)

lemma tracked_step: "tracked st0 s \<Longrightarrow> tracked st0 (run_node P n s)"
proof (cases n)
  case (Supervisor d)
  assume t: "tracked st0 s"
  then show ?thesis
    unfolding tracked_def Supervisor run_node_supervisor
    by (auto simp: update_keys_set distinct_update)
qed (simp_all add: tracked_def run_node_terminal run_node_coordinator)

lemma run_from_trace:
  "fst (run_from P n st) =
     (n, run_node P n st) #
       (case next_node n (run_node P n st) of
          Goto n' \<Rightarrow> fst (run_from P n' (run_node P n st))
        | End \<Rightarrow> []
        | Unknown_destination \<Rightarrow> [])"
  by (subst run_from.simps) (simp add: Let_def case_prod_beta split: successor.splits)

lemma tracked_trace:
  "tracked st0 s0 \<Longrightarrow> (n, s) \<in> set (fst (run_from P n0 s0)) \<Longrightarrow> tracked st0 s"
proof (induction P n0 s0 rule: run_from.induct)
  case (1 P n0 s0)
  let ?s = "run_node P n0 s0"
  have t: "tracked st0 ?s" by (rule tracked_step[OF "1.prems"(1)])
  have unf: "fst (run_from P n0 s0) =
      (n0, ?s) # (case next_node n0 ?s of Goto n' \<Rightarrow> fst (run_from P n' ?s)
                  | End \<Rightarrow> [] | Unknown_destination \<Rightarrow> [])"
    by (rule run_from_trace)
  have "(n, s) \<in> set ((n0, ?s) # (case next_node n0 ?s of
          Goto n' \<Rightarrow> fst (run_from P n' ?s) | End \<Rightarrow> [] | Unknown_destination \<Rightarrow> []))"
    using "1.prems"(2) by (simp only: unf)
  then consider "(n, s) = (n0, ?s)"
    | n' where "next_node n0 ?s = Goto n'" "(n, s) \<in> set (fst (run_from P n' ?s))"
    by (cases "next_node n0 ?s") (auto simp del: next_node.simps)
  then show ?case
  proof cases
    case 1
    with t show ?thesis by simp
  next
    case 2
    from "1.IH"[OF refl 2(1) t 2(2)] show ?thesis .
  qed
qed

lemma completed_mono:
  "set (completed_divisions s) \<subseteq> set (completed_divisions (run_node P n s))"
  by (rule set_mono_prefix[OF completed_prefix])

lemma keys_trace:
  "(n, s) \<in> set (fst (run_from P n0 s0)) \<Longrightarrow>
   fst ` set (division_results (run_node P n0 s0)) \<subseteq> fst ` set (division_results s) \<and>
   set (completed_divisions (run_node P n0 s0)) \<subseteq> set (completed_divisions s)"
proof (induction P n0 s0 rule: run_from.induct)
  case (1 P n0 s0)
  let ?s = "run_node P n0 s0"
  have unf: "fst (run_from P n0 s0) =
      (n0, ?s) # (case next_node n0 ?s of Goto n' \<Rightarrow> fst (run_from P n' ?s)
                  | End \<Rightarrow> [] | Unknown_destination \<Rightarrow> [])"
    by (rule run_from_trace)
  have "(n, s) \<in> set ((n0, ?s) # (case next_node n0 ?s of
          Goto n' \<Rightarrow> fst (run_from P n' ?s) | End \<Rightarrow> [] | Unknown_destination \<Rightarrow> []))"
    using "1.prems" by (simp only: unf)
  then consider "(n, s) = (n0, ?s)"
    | n' where "next_node n0 ?s = Goto n'" "(n, s) \<in> set (fst (run_from P n' ?s))"
    by (cases "next_node n0 ?s") (auto simp del: next_node.simps)
  then show ?case
  proof cases
    case 1
    then show ?thesis by simp
  next
    case 2
    from "1.IH"[OF refl 2(1) 2(2)] results_keys_mono[of ?s P n'] completed_mono[of ?s P n']
    show ?thesis by blast
  qed
qed

lemma visited_keeps_result:
  "fst (run_from P n0 s0) = xs @ (Supervisor d, s1) # ys \<Longrightarrow>
   (n, s) \<in> set ((Supervisor d, s1) # ys) \<Longrightarrow>
   division_value d \<in> fst ` set (division_results s) \<and>
   division_value d \<in> set (completed_divisions s)"
proof (induction P n0 s0 arbitrary: xs rule: run_from.induct)
  case (1 P n0 s0)
  let ?s = "run_node P n0 s0"
  let ?rest = "case next_node n0 ?s of Goto n' \<Rightarrow> fst (run_from P n' ?s)
               | End \<Rightarrow> [] | Unknown_destination \<Rightarrow> []"
  have tr: "(n0, ?s) # ?rest = xs @ (Supervisor d, s1) # ys"
    using "1.prems"(1) run_from_trace[of P n0 s0] by metis
  show ?case
  proof (cases xs)
    case Nil
    with tr have h: "n0 = Supervisor d" "s1 = ?s" "ys = ?rest"
      by (auto simp del: next_node.simps)
    have here: "division_value d \<in> fst ` set (division_results ?s)"
      "division_value d \<in> set (completed_divisions ?s)"
      unfolding h(1) by (rule supervisor_records, rule supervisor_completes)
    from "1.prems"(2) consider "s = ?s" | "(n, s) \<in> set ?rest"
      using h(2,3) by (auto simp del: next_node.simps)
    then show ?thesis
    proof cases
      case 1
      with here show ?thesis by simp
    next
      case 2
      then obtain n' where nx: "next_node n0 ?s = Goto n'"
        and mem: "(n, s) \<in> set (fst (run_from P n' ?s))"
        by (cases "next_node n0 ?s") (auto simp del: next_node.simps)
      from keys_trace[OF mem] results_keys_mono[of ?s P n'] completed_mono[of ?s P n'] here
      show ?thesis by blast
    qed
  next
    case (Cons x xs')
    with tr have rest: "?rest = xs' @ (Supervisor d, s1) # ys"
      by (simp del: next_node.simps)
    then obtain n' where nx: "next_node n0 ?s = Goto n'"
      and tr': "fst (run_from P n' ?s) = xs' @ (Supervisor d, s1) # ys"
      by (cases "next_node n0 ?s") (auto simp del: next_node.simps)
    from "1.IH"[OF refl nx tr' "1.prems"(2)] show ?thesis .
  qed
qed


lemma kakao_trace:
  "fst (run_graph ascii_py kakao_state) =
     [(Chief_coordinator, kakao_routed)] @
     (Supervisor CHANNEL_MANAGEMENT, kakao_served) #
     [(Response_aggregator, run_node ascii_py Response_aggregator kakao_served)]"
proof -
  have r: "route_from_coordinator kakao_routed = To_supervisor (division_value CHANNEL_MANAGEMENT)"
    unfolding kakao_routed_def route_from_coordinator_def
    by (simp add: kakao_coordinator del: division_value.simps)
  have p: "pending_divisions kakao_served = []"
    unfolding kakao_served_def kakao_routed_def pending_after_supervisor
    by (simp add: pending_divisions_def kakao_coordinator del: division_value.simps)
  have 1: "fst (run_from ascii_py (Supervisor CHANNEL_MANAGEMENT) kakao_routed) =
      [(Supervisor CHANNEL_MANAGEMENT, kakao_served),
       (Response_aggregator, run_node ascii_py Response_aggregator kakao_served)]"
    by (subst run_from_supervisor_step) (simp add: p kakao_served_def[symmetric])
  show ?thesis
    unfolding run_graph_def
    by (subst run_from_trace)
       (simp add: kakao_routed_def[symmetric] r supervisor_named_value 1
          del: division_value.simps)
qed

lemma kakao_state_clean:
  "distinct (completed_divisions kakao_state)" "distinct (map fst (division_results kakao_state))"
  by (simp_all add: kakao_state_def fresh_state_def create_initial_state_def)

text \<open>
  C7. In a run from a state in which no name is twice in \<open>completed_divisions\<close> (and
  \<open>division_results\<close>, a \<open>dict\<close>, has no key twice), after every step each division is
  at most once in \<open>completed_divisions\<close>; every division visited so far is in
  \<open>completed_divisions\<close> and has exactly one entry under its name in
  \<open>division_results\<close>; and every name that joined \<open>completed_divisions\<close> during the
  run has exactly one entry, so the entry is recorded no later than the name joins.
\<close>

theorem visited_divisions_recorded_once:
  assumes "distinct (completed_divisions st)"
    and "distinct (map fst (division_results st))"
    and "fst (run_graph P st) = xs @ (n, s) # ys"
  shows "distinct (completed_divisions s) \<and>
         (\<forall>name \<in> set (completed_divisions s).
            name \<in> set (completed_divisions st) \<or> entries_under name s = 1) \<and>
         (\<forall>d s'. (Supervisor d, s') \<in> set (xs @ [(n, s)]) \<longrightarrow>
            division_value d \<in> set (completed_divisions s) \<and>
            entries_under (division_value d) s = 1)"
proof -
  have t0: "tracked st st" using assms(1,2) by (simp add: tracked_def)
  have "(n, s) \<in> set (fst (run_from P Chief_coordinator st))"
    using assms(3) by (simp add: run_graph_def)
  from tracked_trace[OF t0 this] have t: "tracked st s" .
  then have dk: "distinct (map fst (division_results s))" by (simp add: tracked_def)
  have one: "entries_under name s = 1" if "name \<in> fst ` set (division_results s)" for name
    unfolding entries_under_def by (rule entries_one[OF dk that])
  have a: "distinct (completed_divisions s)" using t by (simp add: tracked_def)
  have b: "\<forall>name \<in> set (completed_divisions s).
            name \<in> set (completed_divisions st) \<or> entries_under name s = 1"
    using t one unfolding tracked_def by blast
  have c: "division_value d \<in> set (completed_divisions s) \<and>
           entries_under (division_value d) s = 1"
    if v: "(Supervisor d, s') \<in> set (xs @ [(n, s)])" for d s'
  proof -
    have "\<exists>as bs. fst (run_from P Chief_coordinator st) = as @ (Supervisor d, s') # bs \<and>
            (n, s) \<in> set ((Supervisor d, s') # bs)"
    proof (cases "(Supervisor d, s') \<in> set xs")
      case True
      then obtain as cs where "xs = as @ (Supervisor d, s') # cs"
        by (auto dest: split_list)
      then have "fst (run_from P Chief_coordinator st) =
                 as @ (Supervisor d, s') # (cs @ (n, s) # ys)"
        using assms(3) by (simp add: run_graph_def)
      then show ?thesis by (intro exI[of _ "as"] exI[of _ "cs @ (n, s) # ys"]) simp
    next
      case False
      with v have "(n, s) = (Supervisor d, s')" by auto
      then show ?thesis
        using assms(3) by (intro exI[of _ xs] exI[of _ ys]) (simp add: run_graph_def)
    qed
    then obtain as bs where "fst (run_from P Chief_coordinator st) = as @ (Supervisor d, s') # bs"
      and "(n, s) \<in> set ((Supervisor d, s') # bs)" by blast
    from visited_keeps_result[OF this] one show ?thesis by blast
  qed
  from a b c show ?thesis by blast
qed

theorem visited_divisions_recorded_once_witness:
  "distinct (completed_divisions kakao_state) \<and>
   distinct (map fst (division_results kakao_state)) \<and>
   fst (run_graph ascii_py kakao_state) =
     [(Chief_coordinator, kakao_routed)] @
     (Supervisor CHANNEL_MANAGEMENT, kakao_served) #
     [(Response_aggregator, run_node ascii_py Response_aggregator kakao_served)] \<and>
   completed_divisions kakao_served = [division_value CHANNEL_MANAGEMENT] \<and>
   entries_under (division_value CHANNEL_MANAGEMENT) kakao_served = 1"
proof -
  have c: "completed_divisions kakao_served = [division_value CHANNEL_MANAGEMENT]"
    unfolding kakao_served_def kakao_routed_def
    by (simp add: run_node_supervisor kakao_coordinator del: division_value.simps)
  from visited_divisions_recorded_once[OF kakao_state_clean kakao_trace]
  have "entries_under (division_value CHANNEL_MANAGEMENT) kakao_served = 1"
    by simp
  with kakao_state_clean kakao_trace c show ?thesis by simp
qed

section \<open>Proofs: a request for two divisions\<close>

lemma division_value_eq: "division_value d = division_value d' \<longleftrightarrow> d = d'"
  using division_value_inj by auto

lemma add_messages_input:
  "add_messages [input_message text] [input_message text] = [input_message text]"
  by (simp add: add_messages_def input_message_def HumanMessage_def ids_of_def
      map_filter_simps merge_message_def Let_def)

lemma run_node_supervisor_messages:
  "messages (run_node P (Supervisor d) st) = add_messages (messages st) (messages st)"
  by (simp add: run_node_def division_supervisor_def Let_def)

lemma ascii_prelaunch_scores:
  "collect_scores ascii_py (ascii ''pre launch'') TASK_KEYWORDS [] = []"
  by (simp add: TASK_KEYWORDS_def keyword_score_def ascii_def ascii_py_def
      ascii_lower_char_def sublist_Cons_right Let_def)

lemma ascii_prelaunch_classified:
  "classify_task ascii_py (ascii ''Pre Launch'') = GENERAL_QUERY"
  by (simp add: classify_task_def ascii_prelaunch_lower ascii_prelaunch_scores)

lemma prelaunch_query:
  "messages prelaunch_state = [input_message (ascii ''Pre Launch'')]"
  "last_query prelaunch_state = ascii ''Pre Launch''"
  by (simp_all add: prelaunch_state_def last_query_def HumanMessage_def input_message_def)

lemma prelaunch_coordinated:
  "chief_coordinator ascii_py prelaunch_state =
     coordinator_result ascii_py prelaunch_state (ascii ''Pre Launch'') GENERAL_QUERY
       [OPERATIONS, CHANNEL_MANAGEMENT] Tier2_cheap"
proof -
  have "messages prelaunch_state \<noteq> []" by (simp add: prelaunch_query)
  from coordinator_with_messages[OF this, of ascii_py] show ?thesis
    by (simp add: prelaunch_query(2) chosen_tier_def ascii_prelaunch_classified
        determine_divisions_def ascii_prelaunch_lower ascii_prelaunch_first
        determine_model_tier_def)
       (simp add: ascii_def)
qed


lemma prelaunch_routed:
  "next_divisions (run_node ascii_py Chief_coordinator prelaunch_state) =
     [division_value OPERATIONS, division_value CHANNEL_MANAGEMENT]"
  "error (run_node ascii_py Chief_coordinator prelaunch_state) = Py_None"
  "completed_divisions (run_node ascii_py Chief_coordinator prelaunch_state) = []"
  "division_results (run_node ascii_py Chief_coordinator prelaunch_state) = []"
  "messages (run_node ascii_py Chief_coordinator prelaunch_state) =
     [input_message (ascii ''Pre Launch'')]"
  unfolding run_node_def Let_def node_function.simps prelaunch_coordinated
    coordinator_result_def
  by (simp_all add: prelaunch_state_def fresh_state_def create_initial_state_def
      add_messages_input del: division_value.simps)

lemma ascii_display_names_more:
  "display_name ascii_py (division_value OPERATIONS) = ascii ''Operations''"
  "display_name ascii_py (division_value CHANNEL_MANAGEMENT) = ascii ''Channel Management''"
  by (simp_all add: display_name_def ascii_py_def ascii_def ascii_lower_char_def
      ascii_upper_char_def ascii_is_cased_def)

lemma prelaunch_sections:
  "section_of ascii_py (division_value OPERATIONS,
      division_result ascii_py (division_value OPERATIONS)) =
     ascii ''**Operations**: Operations division has processed the request.''"
  "section_of ascii_py (division_value CHANNEL_MANAGEMENT,
      division_result ascii_py (division_value CHANNEL_MANAGEMENT)) =
     ascii ''**Channel Management**: Channel Management division has processed the request.''"
  by (simp_all add: section_of_def division_result_def ascii_display_names_more
      del: division_value.simps) (simp_all add: ascii_def)

text \<open>
  C3, on the request \<open>Pre Launch\<close>, which the coordinator routes to two divisions.
  The graph visits the coordinator, the two supervisors and the aggregator; the
  response is the two titled sections, in the order of the visits, joined by an empty
  line, and it is appended to the conversation as an assistant message. Nothing
  stands before the first section: there is no banner for several divisions.
\<close>

theorem two_divisions_response_without_banner:
  "visited ascii_py prelaunch_state =
     [Chief_coordinator, Supervisor OPERATIONS, Supervisor CHANNEL_MANAGEMENT,
      Response_aggregator] \<and>
   map fst (division_results (final_state ascii_py prelaunch_state)) =
     [division_value OPERATIONS, division_value CHANNEL_MANAGEMENT] \<and>
   map msg_role (messages (final_state ascii_py prelaunch_state)) = [Human, Assistant] \<and>
   map msg_content (messages (final_state ascii_py prelaunch_state)) =
     [ascii ''Pre Launch'',
      ascii ''**Operations**: Operations division has processed the request.'' @
      [10, 10] @
      ascii ''**Channel Management**: Channel Management division has processed the request.'']"
proof -
  define s1 where "s1 = run_node ascii_py Chief_coordinator prelaunch_state"
  define s2 where "s2 = run_node ascii_py (Supervisor OPERATIONS) s1"
  define s3 where "s3 = run_node ascii_py (Supervisor CHANNEL_MANAGEMENT) s2"
  define s4 where "s4 = run_node ascii_py Response_aggregator s3"
  note s1 = prelaunch_routed[folded s1_def]
  have s2: "next_divisions s2 = [division_value OPERATIONS, division_value CHANNEL_MANAGEMENT]"
    "completed_divisions s2 = [division_value OPERATIONS]"
    "division_results s2 =
       [(division_value OPERATIONS, division_result ascii_py (division_value OPERATIONS))]"
    "messages s2 = [input_message (ascii ''Pre Launch'')]"
    unfolding s2_def
    by (simp_all add: run_node_supervisor run_node_supervisor_messages s1 add_messages_input
        del: division_value.simps)
  have s3: "next_divisions s3 = [division_value OPERATIONS, division_value CHANNEL_MANAGEMENT]"
    "completed_divisions s3 = [division_value OPERATIONS, division_value CHANNEL_MANAGEMENT]"
    "division_results s3 =
       [(division_value OPERATIONS, division_result ascii_py (division_value OPERATIONS)),
        (division_value CHANNEL_MANAGEMENT,
           division_result ascii_py (division_value CHANNEL_MANAGEMENT))]"
    "messages s3 = [input_message (ascii ''Pre Launch'')]"
    unfolding s3_def
    by (simp_all add: run_node_supervisor run_node_supervisor_messages s2 add_messages_input
        division_value_eq del: division_value.simps)
  have p2: "pending_divisions s2 = [division_value CHANNEL_MANAGEMENT]"
    by (simp add: pending_divisions_def s2 division_value_eq del: division_value.simps)
  have p3: "pending_divisions s3 = []"
    by (simp add: pending_divisions_def s3 del: division_value.simps)
  have r1: "route_from_coordinator s1 = To_supervisor (division_value OPERATIONS)"
    by (simp add: route_from_coordinator_def s1 del: division_value.simps)
  have t3: "fst (run_from ascii_py (Supervisor CHANNEL_MANAGEMENT) s2) =
      [(Supervisor CHANNEL_MANAGEMENT, s3), (Response_aggregator, s4)]"
    by (subst run_from_supervisor_step) (simp add: s3_def[symmetric] p3 s4_def)
  have t2: "fst (run_from ascii_py (Supervisor OPERATIONS) s1) =
      [(Supervisor OPERATIONS, s2), (Supervisor CHANNEL_MANAGEMENT, s3),
       (Response_aggregator, s4)]"
    by (subst run_from_supervisor_step)
       (simp add: s2_def[symmetric] p2 supervisor_named_value t3 case_prod_beta
          del: division_value.simps)
  have t1: "fst (run_graph ascii_py prelaunch_state) =
      [(Chief_coordinator, s1), (Supervisor OPERATIONS, s2),
       (Supervisor CHANNEL_MANAGEMENT, s3), (Response_aggregator, s4)]"
    unfolding run_graph_def
    by (subst run_from_trace)
       (simp add: s1_def[symmetric] r1 supervisor_named_value t2 del: division_value.simps)
  have resp: "aggregated_response ascii_py s3 =
      ascii ''**Operations**: Operations division has processed the request.'' @
      [10, 10] @
      ascii ''**Channel Management**: Channel Management division has processed the request.''"
    by (simp add: aggregated_response_def response_parts_def s3 prelaunch_sections
        del: division_value.simps)
  have m4: "map msg_content (messages s4) =
      [ascii ''Pre Launch'', aggregated_response ascii_py s3]"
    "map msg_role (messages s4) = [Human, Assistant]"
    unfolding s4_def
    by (simp_all add: run_node_terminal add_messages_new s3 assign_ids_content assign_ids_role
        input_message_def HumanMessage_def)
  have d4: "division_results s4 = division_results s3"
    unfolding s4_def by (simp add: run_node_terminal)
  show ?thesis
    by (simp add: visited_def final_state_def t1 m4 d4 s3 resp del: division_value.simps)
qed

section \<open>Proofs: errors and the routing after a division\<close>

lemma route_from_division_error_blind:
  "route_from_division (st\<lparr> error := e \<rparr>) = route_from_division st"
  "route_from_division st \<noteq> To_error_handler"
  "next_node (Supervisor d) st \<noteq> Goto Error_handler"
  "error (run_node P (Supervisor d) st) = error st"
proof -
  show "route_from_division (st\<lparr> error := e \<rparr>) = route_from_division st"
    by (simp add: route_from_division_def pending_divisions_def)
  show "route_from_division st \<noteq> To_error_handler"
    by (simp add: route_from_division_def split: list.splits)
  show "next_node (Supervisor d) st \<noteq> Goto Error_handler"
    by (auto simp: route_from_division_def split: list.splits option.splits
        dest: supervisor_named_Some)
  show "error (run_node P (Supervisor d) st) = error st"
    by (simp add: run_node_supervisor)
qed


lemma next_node_not_coordinator: "next_node n s = Goto n' \<Longrightarrow> n' \<noteq> Chief_coordinator"
  by (cases n)
     (auto simp: route_from_coordinator_def route_from_division_def
        split: option.splits list.splits if_splits dest: supervisor_named_Some)

lemma supervisor_states_without_error:
  "n0 \<noteq> Chief_coordinator \<Longrightarrow> \<not> truthy (error s0) \<Longrightarrow>
   (Supervisor d, s) \<in> set (fst (run_from P n0 s0)) \<Longrightarrow> \<not> truthy (error s)"
proof (induction P n0 s0 rule: run_from.induct)
  case (1 P n0 s0)
  let ?s = "run_node P n0 s0"
  have unf: "fst (run_from P n0 s0) =
      (n0, ?s) # (case next_node n0 ?s of Goto n' \<Rightarrow> fst (run_from P n' ?s)
                  | End \<Rightarrow> [] | Unknown_destination \<Rightarrow> [])"
    by (rule run_from_trace)
  have "(Supervisor d, s) \<in> set ((n0, ?s) # (case next_node n0 ?s of
          Goto n' \<Rightarrow> fst (run_from P n' ?s) | End \<Rightarrow> [] | Unknown_destination \<Rightarrow> []))"
    using "1.prems"(3) by (simp only: unf)
  then consider "(Supervisor d, s) = (n0, ?s)"
    | n' where "next_node n0 ?s = Goto n'" "(Supervisor d, s) \<in> set (fst (run_from P n' ?s))"
    by (cases "next_node n0 ?s") (auto simp del: next_node.simps)
  then show ?case
  proof cases
    case 1
    then have "s = run_node P (Supervisor d) s0" by simp
    with "1.prems"(2) show ?thesis by (simp add: run_node_supervisor)
  next
    case 2
    from 2(1) have sup: "\<exists>d0. n0 = Supervisor d0"
      using "1.prems"(1) by (cases n0) simp_all
    then have e: "\<not> truthy (error ?s)"
      using "1.prems"(2) by (auto simp: run_node_supervisor)
    from "1.IH"[OF refl 2(1) next_node_not_coordinator[OF 2(1)] e 2(2)] show ?thesis .
  qed
qed

lemma no_supervisor_state_has_error:
  "(Supervisor d, s) \<in> set (fst (run_graph P st)) \<Longrightarrow> \<not> truthy (error s)"
proof -
  assume m: "(Supervisor d, s) \<in> set (fst (run_graph P st))"
  let ?s = "run_node P Chief_coordinator st"
  have unf: "fst (run_from P Chief_coordinator st) =
      (Chief_coordinator, ?s) # (case next_node Chief_coordinator ?s of
          Goto n' \<Rightarrow> fst (run_from P n' ?s) | End \<Rightarrow> [] | Unknown_destination \<Rightarrow> [])"
    by (rule run_from_trace)
  have "(Supervisor d, s) \<in> set ((Chief_coordinator, ?s) # (case next_node Chief_coordinator ?s of
          Goto n' \<Rightarrow> fst (run_from P n' ?s) | End \<Rightarrow> [] | Unknown_destination \<Rightarrow> []))"
    using m by (simp only: run_graph_def unf)
  then obtain n' where nx: "next_node Chief_coordinator ?s = Goto n'"
    and mem: "(Supervisor d, s) \<in> set (fst (run_from P n' ?s))"
    by (cases "next_node Chief_coordinator ?s") (auto simp del: next_node.simps)
  show ?thesis
  proof (cases "truthy (error ?s)")
    case True
    with nx have "n' = Error_handler" by (simp add: route_from_coordinator_def)
    with mem show ?thesis by (simp add: run_from_terminal)
  next
    case False
    from supervisor_states_without_error[OF next_node_not_coordinator[OF nx] False mem]
    show ?thesis .
  qed
qed




end
